theory Spec2Isabelle
  imports Main "HOL-Library.Sublist"
begin

section \<open>Data model: tokens, attributes, blocks, bodies\<close>

text \<open>
  The editor works on the syntax tree of the \<^verbatim>\<open>hclwrite\<close> library. A token has a type, its
  literal bytes and the number of spaces written before it. Only two token types are
  inspected by the code (\<^verbatim>\<open>TokenEqual\<close> and \<^verbatim>\<open>TokenComment\<close>); the others are listed for
  building documents.
\<close>

datatype TokenType =
    TokenEqual
  | TokenComment
  | TokenIdent
  | TokenNewline
  | TokenOQuote
  | TokenCQuote
  | TokenQuotedLit
  | TokenNumberLit
  | TokenOther nat

record Token =
  Type :: TokenType
  Bytes :: string
  SpacesBefore :: nat

type_synonym Tokens = "Token list"

text \<open>
  An attribute, as the library keeps it: the comments above it, its name, the tokens of
  its expression (what stands after the \<^verbatim>\<open>=\<close>) and the comment at the end of its line.
  \<^verbatim>\<open>attr.Expr().BuildTokens(nil)\<close> is the field \<open>expr\<close>; \<^verbatim>\<open>attr.BuildTokens(nil)\<close> is every
  token of the attribute in source order: lead comments, name, \<^verbatim>\<open>=\<close>, expression, line
  comment, newline (a line comment token ends with the newline itself, so no newline token
  follows it).
\<close>

record Attribute =
  leadComments :: Tokens
  name :: string
  expr :: Tokens
  lineComments :: Tokens

definition identToken :: "string \<Rightarrow> Token" where
  "identToken n = \<lparr>Type = TokenIdent, Bytes = n, SpacesBefore = 0\<rparr>"

definition equalToken :: Token where
  "equalToken = \<lparr>Type = TokenEqual, Bytes = ''='', SpacesBefore = 0\<rparr>"

definition newlineToken :: Token where
  "newlineToken = \<lparr>Type = TokenNewline, Bytes = [CHR 0x0A], SpacesBefore = 0\<rparr>"

definition BuildTokens :: "Attribute \<Rightarrow> Tokens" where
  "BuildTokens a =
     leadComments a @ [identToken (name a)] @ [equalToken] @ expr a @ lineComments a
       @ (if lineComments a = [] then [newlineToken] else [])"

text \<open>
  A block has a type name, labels and a body; a body is the ordered sequence of its
  attributes and blocks.
\<close>

datatype Block = Block (block_Type: string) (Labels: "string list") (Body: "Item list")
  and Item = AttributeItem Attribute | BlockItem Block

type_synonym Body = "Item list"

text \<open>\<^verbatim>\<open>Body.Blocks()\<close>: the child blocks in document order.\<close>

fun Blocks :: "Body \<Rightarrow> Block list" where
  "Blocks [] = []"
| "Blocks (AttributeItem a # items) = Blocks items"
| "Blocks (BlockItem b # items) = b # Blocks items"

text \<open>
  \<^verbatim>\<open>Body.GetAttribute(name)\<close>: the attribute of the body with that name, \<^verbatim>\<open>nil\<close> when there
  is none. Names are unique within a parsed body; on a list with duplicates the first
  one is returned.
\<close>

fun GetAttribute :: "Body \<Rightarrow> string \<Rightarrow> Attribute option" where
  "GetAttribute [] n = None"
| "GetAttribute (AttributeItem a # items) n =
     (if name a = n then Some a else GetAttribute items n)"
| "GetAttribute (BlockItem b # items) n = GetAttribute items n"

text \<open>
  \<^verbatim>\<open>Body.SetAttributeRaw(name, tokens)\<close>: replaces the expression of the attribute of that
  name by the raw tokens, or appends a new attribute (no comments) when there is none.
\<close>

fun replaceExpr :: "Body \<Rightarrow> string \<Rightarrow> Tokens \<Rightarrow> Body" where
  "replaceExpr [] n ts = []"
| "replaceExpr (AttributeItem a # items) n ts =
     (if name a = n then AttributeItem (a\<lparr>expr := ts\<rparr>) # items
      else AttributeItem a # replaceExpr items n ts)"
| "replaceExpr (BlockItem b # items) n ts = BlockItem b # replaceExpr items n ts"

definition SetAttributeRaw :: "Body \<Rightarrow> string \<Rightarrow> Tokens \<Rightarrow> Body" where
  "SetAttributeRaw body n ts =
     (case GetAttribute body n of
        Some a \<Rightarrow> replaceExpr body n ts
      | None \<Rightarrow>
          body @ [AttributeItem \<lparr>leadComments = [], name = n, expr = ts, lineComments = []\<rparr>])"

record File =
  file_Body :: Body

definition NewEmptyFile :: File where
  "NewEmptyFile = \<lparr>file_Body = []\<rparr>"

text \<open>\<^verbatim>\<open>Tokens.Bytes()\<close>: each token is written as its spaces followed by its bytes.\<close>

fun Tokens_Bytes :: "Tokens \<Rightarrow> string" where
  "Tokens_Bytes [] = []"
| "Tokens_Bytes (t # ts) = replicate (SpacesBefore t) CHR '' '' @ Bytes t @ Tokens_Bytes ts"

section \<open>The string functions of the standard library\<close>

text \<open>
  \<^verbatim>\<open>strings.Split(s, ".")\<close>: the substrings between the dots; one more than there are dots,
  so the empty string gives one empty segment.
\<close>

fun strings_Split :: "string \<Rightarrow> string list" where
  "strings_Split [] = [[]]"
| "strings_Split (c # cs) =
     (if c = CHR ''.'' then [] # strings_Split cs
      else (case strings_Split cs of
              [] \<Rightarrow> [[c]]
            | seg # segs \<Rightarrow> (c # seg) # segs))"

text \<open>\<^verbatim>\<open>strings.Join(a, ".")\<close>.\<close>

fun strings_Join :: "string list \<Rightarrow> string" where
  "strings_Join [] = []"
| "strings_Join [seg] = seg"
| "strings_Join (seg # segs) = seg @ ''.'' @ strings_Join segs"

text \<open>
  \<^verbatim>\<open>strings.TrimSpace\<close> removes the leading and trailing white space as Unicode defines it.
  A string is a sequence of bytes, so white space is recognised by its UTF-8 encoding:
  the six ASCII characters, U+0085, U+00A0, U+1680, U+2000 to U+200A, U+2028, U+2029,
  U+202F, U+205F and U+3000.
\<close>

definition unicodeSpaces :: "string list" where
  "unicodeSpaces =
     [[CHR 0x09], [CHR 0x0A], [CHR 0x0B], [CHR 0x0C], [CHR 0x0D], [CHR 0x20],
      [CHR 0xC2, CHR 0x85], [CHR 0xC2, CHR 0xA0],
      [CHR 0xE1, CHR 0x9A, CHR 0x80],
      [CHR 0xE2, CHR 0x80, CHR 0x80], [CHR 0xE2, CHR 0x80, CHR 0x81],
      [CHR 0xE2, CHR 0x80, CHR 0x82], [CHR 0xE2, CHR 0x80, CHR 0x83],
      [CHR 0xE2, CHR 0x80, CHR 0x84], [CHR 0xE2, CHR 0x80, CHR 0x85],
      [CHR 0xE2, CHR 0x80, CHR 0x86], [CHR 0xE2, CHR 0x80, CHR 0x87],
      [CHR 0xE2, CHR 0x80, CHR 0x88], [CHR 0xE2, CHR 0x80, CHR 0x89],
      [CHR 0xE2, CHR 0x80, CHR 0x8A],
      [CHR 0xE2, CHR 0x80, CHR 0xA8], [CHR 0xE2, CHR 0x80, CHR 0xA9],
      [CHR 0xE2, CHR 0x80, CHR 0xAF],
      [CHR 0xE2, CHR 0x81, CHR 0x9F],
      [CHR 0xE3, CHR 0x80, CHR 0x80]]"

text \<open>Removing, from the front, every leading occurrence of one of the given sequences.\<close>

function trimLeft :: "string list \<Rightarrow> string \<Rightarrow> string" where
  "trimLeft seqs s =
     (case List.find (\<lambda>p. p \<noteq> [] \<and> prefix p s) seqs of
        None \<Rightarrow> s
      | Some p \<Rightarrow> trimLeft seqs (drop (length p) s))"
  by pat_completeness auto
termination
proof (relation "measure (\<lambda>(seqs, s). length s)")
  show "wf (measure (\<lambda>(seqs, s). length s))" by simp
next
  fix seqs :: "string list" and s p :: string
  assume "List.find (\<lambda>p. p \<noteq> [] \<and> prefix p s) seqs = Some p"
  then have "p \<noteq> []" and "prefix p s"
    by (auto simp: find_Some_iff)
  then have "s \<noteq> []" by auto
  with \<open>p \<noteq> []\<close> show "((seqs, drop (length p) s), (seqs, s)) \<in> measure (\<lambda>(seqs, s). length s)"
    by simp
qed

declare trimLeft.simps [simp del]

definition strings_TrimSpace :: "string \<Rightarrow> string" where
  "strings_TrimSpace s =
     rev (trimLeft (map rev unicodeSpaces) (rev (trimLeft unicodeSpaces s)))"

section \<open>Errors\<close>

text \<open>
  The two errors the code creates: \<^verbatim>\<open>"failed to parse address. address is empty"\<close> and
  \<^verbatim>\<open>"failed to find TokenEqual: ..."\<close> (which prints the attribute).
\<close>

datatype error = EmptyAddressError | TokenEqualNotFound Attribute

section \<open>The label matcher\<close>

text \<open>
  \<^verbatim>\<open>longestMatchingLabels(labels, prefix)\<close>: the loop \<^verbatim>\<open>for i := range prefix\<close> with its
  accumulator \<^verbatim>\<open>matched\<close>.
\<close>

function longestMatchingLabels_loop ::
  "string list \<Rightarrow> string list \<Rightarrow> nat \<Rightarrow> string list \<Rightarrow> string list" where
  "longestMatchingLabels_loop labels segs i matched =
     (if i < length segs then
        (if length labels \<le> i then matched
         else if segs ! i \<noteq> labels ! i then matched
         else longestMatchingLabels_loop labels segs (i + 1) (matched @ [labels ! i]))
      else matched)"
  by pat_completeness auto
termination
  by (relation "measure (\<lambda>(labels, segs, i, matched). length segs - i)") auto

declare longestMatchingLabels_loop.simps [simp del]

definition longestMatchingLabels :: "string list \<Rightarrow> string list \<Rightarrow> string list" where
  "longestMatchingLabels labels segs = longestMatchingLabels_loop labels segs 0 []"

section \<open>The block resolver\<close>

text \<open>\<^verbatim>\<open>allMatchingBlocksByType\<close>: the loop over \<^verbatim>\<open>b.Blocks()\<close> with its accumulator.\<close>

fun allMatchingBlocksByType_loop :: "Block list \<Rightarrow> string \<Rightarrow> Block list \<Rightarrow> Block list" where
  "allMatchingBlocksByType_loop [] typeName matched = matched"
| "allMatchingBlocksByType_loop (block # rest) typeName matched =
     (if typeName = block_Type block
      then allMatchingBlocksByType_loop rest typeName (matched @ [block])
      else allMatchingBlocksByType_loop rest typeName matched)"

definition allMatchingBlocksByType :: "Body \<Rightarrow> string \<Rightarrow> Block list" where
  "allMatchingBlocksByType b typeName = allMatchingBlocksByType_loop (Blocks b) typeName []"

text \<open>The number of blocks in a tree, the measure of the resolver's recursion.\<close>

primrec countBlocks :: "Block \<Rightarrow> nat" and countItem :: "Item \<Rightarrow> nat" where
  "countBlocks (Block t ls body) = 1 + sum_list (map countItem body)"
| "countItem (AttributeItem a) = 0"
| "countItem (BlockItem b) = countBlocks b"

lemma countBlocks_loop:
  "sum_list (map countBlocks (allMatchingBlocksByType_loop bs t matched))
     \<le> sum_list (map countBlocks bs) + sum_list (map countBlocks matched)"
  by (induction bs t matched rule: allMatchingBlocksByType_loop.induct) auto

lemma countBlocks_Blocks:
  "sum_list (map countBlocks (Blocks body)) = sum_list (map countItem body)"
  by (induction body rule: Blocks.induct) auto

lemma countBlocks_allMatching:
  "sum_list (map countBlocks (allMatchingBlocksByType body t)) \<le> sum_list (map countItem body)"
  using countBlocks_loop [of "Blocks body" t "[]"]
  by (simp add: allMatchingBlocksByType_def countBlocks_Blocks)

lemma countBlocks_Body: "countBlocks b = 1 + sum_list (map countItem (Body b))"
  by (cases b) simp

text \<open>
  \<^verbatim>\<open>findLongestMatchingBlocks(body, address)\<close>. The loop over the candidate blocks is the
  second function: \<open>a\<close> is the split address, the list holds the blocks still to visit,
  \<open>matched\<close> is the accumulator; an error of the nested call ends the loop.
\<close>

function findLongestMatchingBlocks :: "Body \<Rightarrow> string \<Rightarrow> error + Block list"
  and findLongestMatchingBlocks_loop ::
    "string list \<Rightarrow> Block list \<Rightarrow> Block list \<Rightarrow> error + Block list" where
  "findLongestMatchingBlocks body address =
     (if length address = 0 then Inl EmptyAddressError
      else
        let a = strings_Split address;
            typeName = hd a;
            blocks = allMatchingBlocksByType body typeName
        in if length a = 1 then Inr blocks
           else findLongestMatchingBlocks_loop a blocks [])"
| "findLongestMatchingBlocks_loop a [] matched = Inr matched"
| "findLongestMatchingBlocks_loop a (b # bs) matched =
     (let labels = Labels b;
          matchedlabels = longestMatchingLabels labels (tl a)
      in if length matchedlabels < length labels then
           findLongestMatchingBlocks_loop a bs matched
         else if length matchedlabels < length a - 1 \<or> length labels = 0 then
           (let nestedAddr = strings_Join (drop (1 + length matchedlabels) a)
            in case findLongestMatchingBlocks (Body b) nestedAddr of
                 Inl err \<Rightarrow> Inl err
               | Inr nested \<Rightarrow> findLongestMatchingBlocks_loop a bs (matched @ nested))
         else findLongestMatchingBlocks_loop a bs (matched @ [b]))"
  by pat_completeness auto
termination
proof (relation "measure (\<lambda>x. case x of
            Inl (body, address) \<Rightarrow> 2 * sum_list (map countItem body) + 1
          | Inr (a, bs, matched) \<Rightarrow> 2 * sum_list (map countBlocks bs))", goal_cases)
  case 1
  show ?case by simp
next
  case (2 body address a typeName blocks)
  then show ?case
    using countBlocks_allMatching [of body "hd (strings_Split address)"] by simp
qed (simp_all add: countBlocks_Body)

declare findLongestMatchingBlocks.simps [simp del]

text \<open>
  The calls of \<^verbatim>\<open>findLongestMatchingBlocks\<close> that a call on a body and an address leads to: the
  call itself, and, through each candidate block that the loop searches, the calls that the
  nested call on that block's body (with the address derived for it) leads to. The loop
  returns at the first nested call that fails; the relation does not follow that, and also
  holds the calls that the candidates after such a block would lead to.
\<close>

inductive nestedCall :: "Body \<Rightarrow> string \<Rightarrow> Body \<Rightarrow> string \<Rightarrow> bool" where
  nestedCall_self: "nestedCall body addr body addr"
| nestedCall_step:
    "addr \<noteq> [] \<Longrightarrow>
     strings_Split addr = typeName # remaining \<Longrightarrow>
     remaining \<noteq> [] \<Longrightarrow>
     b \<in> set (allMatchingBlocksByType body typeName) \<Longrightarrow>
     \<not> length (longestMatchingLabels (Labels b) remaining) < length (Labels b) \<Longrightarrow>
     length (longestMatchingLabels (Labels b) remaining) < length remaining
       \<or> length (Labels b) = 0 \<Longrightarrow>
     nestedCall (Body b)
       (strings_Join (drop (length (longestMatchingLabels (Labels b) remaining)) remaining))
       body' addr' \<Longrightarrow>
     nestedCall body addr body' addr'"

section \<open>The attribute resolver\<close>

text \<open>The loop of \<^verbatim>\<open>findAttribute\<close> over the matched blocks: the first one with the attribute.\<close>

fun findAttribute_loop :: "Block list \<Rightarrow> string \<Rightarrow> Attribute option \<times> Body option" where
  "findAttribute_loop [] attrName = (None, None)"
| "findAttribute_loop (b # bs) attrName =
     (case GetAttribute (Body b) attrName of
        Some attr \<Rightarrow> (Some attr, Some (Body b))
      | None \<Rightarrow> findAttribute_loop bs attrName)"

definition findAttribute :: "Body \<Rightarrow> string \<Rightarrow> error + (Attribute option \<times> Body option)" where
  "findAttribute body address =
     (if length address = 0 then Inl EmptyAddressError
      else
        let a = strings_Split address
        in if length a = 1 then Inr (GetAttribute body (a ! 0), Some body)
           else
             let attrName = a ! (length a - 1);
                 blockAddr = strings_Join (take (length a - 1) a)
             in case findLongestMatchingBlocks body blockAddr of
                  Inl err \<Rightarrow> Inl err
                | Inr blocks \<Rightarrow>
                    if length blocks = 0 then Inr (None, None)
                    else Inr (findAttribute_loop blocks attrName))"

section \<open>The value extractor\<close>

text \<open>The first loop of \<^verbatim>\<open>getAttributeValueAsString\<close>: the index of the first \<^verbatim>\<open>TokenEqual\<close>.\<close>

function findTokenEqual :: "Tokens \<Rightarrow> nat \<Rightarrow> nat" where
  "findTokenEqual exprTokens i =
     (if i < length exprTokens \<and> Type (exprTokens ! i) \<noteq> TokenEqual
      then findTokenEqual exprTokens (i + 1) else i)"
  by pat_completeness auto
termination
  by (relation "measure (\<lambda>(exprTokens, i). length exprTokens - i)") auto

declare findTokenEqual.simps [simp del]

text \<open>The second loop: the tokens up to the first \<^verbatim>\<open>TokenComment\<close>.\<close>

fun collectValueTokens :: "Tokens \<Rightarrow> Tokens \<Rightarrow> Tokens" where
  "collectValueTokens [] valueTokens = valueTokens"
| "collectValueTokens (t # ts) valueTokens =
     (if Type t = TokenComment then valueTokens
      else collectValueTokens ts (valueTokens @ [t]))"

definition getAttributeValueAsString :: "Attribute \<Rightarrow> error + string" where
  "getAttributeValueAsString attr =
     (let exprTokens = expr attr;
          i = findTokenEqual exprTokens 0
      in if i = length exprTokens then Inl (TokenEqualNotFound attr)
         else
           let valueTokens = collectValueTokens (drop (i + 1) exprTokens) []
           in Inr (strings_TrimSpace (Tokens_Bytes valueTokens)))"

section \<open>The filter and the sink\<close>

record attributeGet =
  address :: string

definition attributeGet_Filter :: "attributeGet \<Rightarrow> File \<Rightarrow> error + File" where
  "attributeGet_Filter f inFile =
     (case findAttribute (file_Body inFile) (address f) of
        Inl err \<Rightarrow> Inl err
      | Inr (attr, owner) \<Rightarrow>
          (let outFile = NewEmptyFile
           in case attr of
                Some at \<Rightarrow>
                  Inr (outFile\<lparr>file_Body :=
                         SetAttributeRaw (file_Body outFile) (address f) (BuildTokens at)\<rparr>)
              | None \<Rightarrow> Inr outFile))"

definition attributeGet_Sink :: "attributeGet \<Rightarrow> File \<Rightarrow> error + string" where
  "attributeGet_Sink f inFile =
     (let attrName = address f
      in case GetAttribute (file_Body inFile) attrName of
           None \<Rightarrow> Inr []
         | Some attr \<Rightarrow>
             (case getAttributeValueAsString attr of
                Inl err \<Rightarrow> Inl err
              | Inr out \<Rightarrow> Inr (out @ [CHR 0x0A])))"

section \<open>Example documents\<close>

text \<open>
  The tokens of a quoted string as the parser delivers them after the \<^verbatim>\<open>=\<close>: one space, then the
  opening quote, the literal and the closing quote.
\<close>

definition quoted :: "string \<Rightarrow> Tokens" where
  "quoted v =
     [\<lparr>Type = TokenOQuote, Bytes = [CHR 0x22], SpacesBefore = 1\<rparr>,
      \<lparr>Type = TokenQuotedLit, Bytes = v, SpacesBefore = 0\<rparr>,
      \<lparr>Type = TokenCQuote, Bytes = [CHR 0x22], SpacesBefore = 0\<rparr>]"

definition stringAttribute :: "string \<Rightarrow> string \<Rightarrow> Attribute" where
  "stringAttribute n v = \<lparr>leadComments = [], name = n, expr = quoted v, lineComments = []\<rparr>"

definition resource_block :: Block where
  "resource_block =
     Block ''resource'' [''aws_instance'', ''foo''] [AttributeItem (stringAttribute ''ami'' ''x'')]"

definition resource_doc :: Body where
  "resource_doc = [BlockItem resource_block]"

definition xy_block :: Block where
  "xy_block =
     Block ''t'' [''x'', ''y'']
       [BlockItem (Block ''x'' [''z''] [AttributeItem (stringAttribute ''attr'' ''v'')])]"

definition child_block :: Block where
  "child_block = Block ''child'' [] [AttributeItem (stringAttribute ''attr'' ''v'')]"

definition parent_block :: Block where
  "parent_block = Block ''parent'' [] [BlockItem child_block]"

definition dup_doc :: Body where
  "dup_doc =
     [BlockItem (Block ''a'' [] [AttributeItem (stringAttribute ''b'' ''1'')]),
      AttributeItem (stringAttribute ''c'' ''3''),
      BlockItem (Block ''z'' [''a''] []),
      BlockItem (Block ''a'' [''l''] [AttributeItem (stringAttribute ''b'' ''2'')])]"

definition ab_doc :: Body where
  "ab_doc =
     [BlockItem (Block ''a'' [] [AttributeItem (stringAttribute ''b'' ''1'')]),
      BlockItem (Block ''a'' [] [AttributeItem (stringAttribute ''b'' ''2'')])]"

definition empty_a_block :: Block where
  "empty_a_block = Block ''a'' [] []"

text \<open>
  The attribute \<^verbatim>\<open>name = "value" # comment\<close> as the parser delivers it: its expression is the
  quoted string, the comment is its line comment.
\<close>

definition name_value_attr :: Attribute where
  "name_value_attr =
     \<lparr>leadComments = [], name = ''name'', expr = quoted ''value'',
      lineComments =
        [\<lparr>Type = TokenComment, Bytes = ''# comment'' @ [CHR 0x0A], SpacesBefore = 1\<rparr>]\<rparr>"

section \<open>Facts about the string functions\<close>

lemma strings_Split_not_Nil: "strings_Split s \<noteq> []"
  by (induction s) (auto split: list.splits)

lemma strings_Split_no_dot: "seg \<in> set (strings_Split s) \<Longrightarrow> CHR ''.'' \<notin> set seg"
  by (induction s arbitrary: seg) (auto split: list.splits if_splits)

lemma strings_Split_single: "CHR ''.'' \<notin> set s \<Longrightarrow> strings_Split s = [s]"
  by (induction s) auto

lemma strings_Split_length_1: "length (strings_Split s) = 1 \<longleftrightarrow> CHR ''.'' \<notin> set s"
proof (induction s)
  case Nil
  show ?case by simp
next
  case (Cons c cs)
  show ?case
  proof (cases "c = CHR ''.''")
    case True
    then show ?thesis using strings_Split_not_Nil [of cs] by (cases "strings_Split cs") auto
  next
    case False
    then show ?thesis using Cons strings_Split_not_Nil [of cs]
      by (cases "strings_Split cs") auto
  qed
qed

lemma strings_Join_Cons: "segs \<noteq> [] \<Longrightarrow> strings_Join (seg # segs) = seg @ ''.'' @ strings_Join segs"
  by (cases segs) auto

lemma strings_Split_append_dot:
  "CHR ''.'' \<notin> set seg \<Longrightarrow> strings_Split (seg @ CHR ''.'' # rest) = seg # strings_Split rest"
  by (induction seg) auto

lemma strings_Split_Join:
  "segs \<noteq> [] \<Longrightarrow> \<forall>seg \<in> set segs. CHR ''.'' \<notin> set seg \<Longrightarrow>
   strings_Split (strings_Join segs) = segs"
proof (induction segs rule: strings_Join.induct)
  case 1
  then show ?case by simp
next
  case (2 seg)
  then show ?case by (simp add: strings_Split_single)
next
  case (3 seg v va)
  then show ?case by (simp add: strings_Split_append_dot)
qed

lemma strings_Join_Split: "strings_Join (strings_Split s) = s"
proof (induction s)
  case Nil
  show ?case by simp
next
  case (Cons c cs)
  show ?case
  proof (cases "strings_Split cs")
    case Nil
    then show ?thesis using strings_Split_not_Nil by simp
  next
    case (Cons seg segs)
    then show ?thesis using Cons.IH
      by (cases segs) (auto simp: strings_Join_Cons)
  qed
qed

lemma strings_Split_Nil_iff: "strings_Split s = [[]] \<longleftrightarrow> s = []"
  by (metis strings_Join_Split strings_Join.simps(2) strings_Split.simps(1))

lemma strings_Join_empty_iff: "strings_Join segs = [] \<longleftrightarrow> segs = [] \<or> segs = [[]]"
  by (induction segs rule: strings_Join.induct) auto

section \<open>Facts about the candidate blocks and the loop over them\<close>

lemma Blocks_append: "Blocks (xs @ ys) = Blocks xs @ Blocks ys"
  by (induction xs rule: Blocks.induct) auto

lemma allMatchingBlocksByType_loop_filter:
  "allMatchingBlocksByType_loop bs t matched = matched @ filter (\<lambda>b. block_Type b = t) bs"
  by (induction bs t matched rule: allMatchingBlocksByType_loop.induct) auto

lemma allMatchingBlocksByType_filter:
  "allMatchingBlocksByType body t = filter (\<lambda>b. block_Type b = t) (Blocks body)"
  by (simp add: allMatchingBlocksByType_def allMatchingBlocksByType_loop_filter)

lemma allMatchingBlocksByType_append:
  "allMatchingBlocksByType (xs @ ys) t = allMatchingBlocksByType xs t @ allMatchingBlocksByType ys t"
  by (simp add: allMatchingBlocksByType_filter Blocks_append)


lemma loop_skip:
  "length (longestMatchingLabels (Labels b) (tl a)) < length (Labels b) \<Longrightarrow>
   findLongestMatchingBlocks_loop a (b # bs) matched = findLongestMatchingBlocks_loop a bs matched"
  by (simp add: Let_def)

lemma loop_nested:
  "\<not> length (longestMatchingLabels (Labels b) (tl a)) < length (Labels b) \<Longrightarrow>
   length (longestMatchingLabels (Labels b) (tl a)) < length a - 1 \<or> length (Labels b) = 0 \<Longrightarrow>
   findLongestMatchingBlocks_loop a (b # bs) matched =
     (case findLongestMatchingBlocks (Body b)
             (strings_Join (drop (1 + length (longestMatchingLabels (Labels b) (tl a))) a)) of
        Inl err \<Rightarrow> Inl err
      | Inr nested \<Rightarrow> findLongestMatchingBlocks_loop a bs (matched @ nested))"
  by (simp add: Let_def)

lemma loop_full:
  "\<not> length (longestMatchingLabels (Labels b) (tl a)) < length (Labels b) \<Longrightarrow>
   \<not> (length (longestMatchingLabels (Labels b) (tl a)) < length a - 1 \<or> length (Labels b) = 0) \<Longrightarrow>
   findLongestMatchingBlocks_loop a (b # bs) matched =
     findLongestMatchingBlocks_loop a bs (matched @ [b])"
  by (simp add: Let_def)

lemma loop_matched:
  "findLongestMatchingBlocks_loop a bs matched =
     (case findLongestMatchingBlocks_loop a bs [] of
        Inl e \<Rightarrow> Inl e | Inr r \<Rightarrow> Inr (matched @ r))"
proof (induction bs arbitrary: matched)
  case Nil
  show ?case by simp
next
  case (Cons b bs)
  let ?ml = "longestMatchingLabels (Labels b) (tl a)"
  consider (skip) "length ?ml < length (Labels b)"
    | (nested) "\<not> length ?ml < length (Labels b)"
        "length ?ml < length a - 1 \<or> length (Labels b) = 0"
    | (full) "\<not> length ?ml < length (Labels b)"
        "\<not> (length ?ml < length a - 1 \<or> length (Labels b) = 0)"
    by blast
  then show ?case
  proof cases
    case skip
    then show ?thesis using Cons [of matched] by (simp only: loop_skip)
  next
    case nested
    show ?thesis
    proof (cases "findLongestMatchingBlocks (Body b)
             (strings_Join (drop (1 + length ?ml) a))")
      case (Inl e)
      then show ?thesis by (simp only: loop_nested [OF nested] sum.case)
    next
      case (Inr n)
      have "findLongestMatchingBlocks_loop a (b # bs) matched =
          findLongestMatchingBlocks_loop a bs (matched @ n)"
        by (simp only: loop_nested [OF nested] Inr sum.case)
      moreover have "findLongestMatchingBlocks_loop a (b # bs) [] =
          findLongestMatchingBlocks_loop a bs ([] @ n)"
        by (simp only: loop_nested [OF nested] Inr sum.case)
      ultimately show ?thesis
        using Cons [of "matched @ n"] Cons [of n]
        by (cases "findLongestMatchingBlocks_loop a bs []") simp_all
    qed
  next
    case full
    have "findLongestMatchingBlocks_loop a (b # bs) matched =
        findLongestMatchingBlocks_loop a bs (matched @ [b])"
      by (simp only: loop_full [OF full])
    moreover have "findLongestMatchingBlocks_loop a (b # bs) [] =
        findLongestMatchingBlocks_loop a bs ([] @ [b])"
      by (simp only: loop_full [OF full])
    ultimately show ?thesis
      using Cons [of "matched @ [b]"] Cons [of "[b]"]
      by (cases "findLongestMatchingBlocks_loop a bs []") simp_all
  qed
qed

lemma loop_append:
  "findLongestMatchingBlocks_loop a (bs1 @ bs2) matched =
     (case findLongestMatchingBlocks_loop a bs1 matched of
        Inl e \<Rightarrow> Inl e
      | Inr m \<Rightarrow> findLongestMatchingBlocks_loop a bs2 m)"
proof (induction bs1 arbitrary: matched)
  case Nil
  show ?case by simp
next
  case (Cons b bs)
  let ?ml = "longestMatchingLabels (Labels b) (tl a)"
  consider (skip) "length ?ml < length (Labels b)"
    | (nested) "\<not> length ?ml < length (Labels b)"
        "length ?ml < length a - 1 \<or> length (Labels b) = 0"
    | (full) "\<not> length ?ml < length (Labels b)"
        "\<not> (length ?ml < length a - 1 \<or> length (Labels b) = 0)"
    by blast
  then show ?case
  proof cases
    case skip
    then show ?thesis using Cons [of matched] by (simp only: append_Cons loop_skip)
  next
    case nested
    show ?thesis
      using Cons
      by (cases "findLongestMatchingBlocks (Body b) (strings_Join (drop (1 + length ?ml) a))")
         (simp_all only: append_Cons loop_nested [OF nested] sum.case)
  next
    case full
    show ?thesis using Cons by (simp only: append_Cons loop_full [OF full])
  qed
qed

section \<open>The resolver on a body split into parts\<close>

lemma strings_Split_multi_not_empty:
  "strings_Split addr = t # remaining \<Longrightarrow> remaining \<noteq> [] \<Longrightarrow> addr \<noteq> []"
  by auto

lemma findLongestMatchingBlocks_multi:
  assumes "strings_Split addr = t # remaining" "remaining \<noteq> []"
  shows "findLongestMatchingBlocks body addr =
           findLongestMatchingBlocks_loop (t # remaining) (allMatchingBlocksByType body t) []"
proof -
  have "addr \<noteq> []" using assms by auto
  moreover have "length (strings_Split addr) \<noteq> 1" using assms by simp
  ultimately show ?thesis
    using assms by (simp add: findLongestMatchingBlocks.simps Let_def)
qed

lemma findLongestMatchingBlocks_single:
  assumes "addr \<noteq> []" "CHR ''.'' \<notin> set addr"
  shows "findLongestMatchingBlocks body addr = Inr (allMatchingBlocksByType body addr)"
  using assms by (simp add: findLongestMatchingBlocks.simps strings_Split_single)

lemma findLongestMatchingBlocks_append:
  assumes "addr \<noteq> []"
  shows "findLongestMatchingBlocks (xs @ ys) addr =
     (case findLongestMatchingBlocks xs addr of
        Inl e \<Rightarrow> Inl e
      | Inr r1 \<Rightarrow>
          (case findLongestMatchingBlocks ys addr of
             Inl e \<Rightarrow> Inl e
           | Inr r2 \<Rightarrow> Inr (r1 @ r2)))"
proof (cases "strings_Split addr")
  case Nil
  then show ?thesis using strings_Split_not_Nil by simp
next
  case (Cons t remaining)
  show ?thesis
  proof (cases "remaining = []")
    case True
    then have "CHR ''.'' \<notin> set addr"
      using Cons strings_Split_length_1 [of addr] by simp
    then show ?thesis
      using assms
      by (simp add: findLongestMatchingBlocks_single allMatchingBlocksByType_append)
  next
    case False
    note m = findLongestMatchingBlocks_multi [OF Cons False]
    show ?thesis
    proof (cases "findLongestMatchingBlocks_loop (t # remaining) (allMatchingBlocksByType xs t) []")
      case (Inl e)
      then show ?thesis
        unfolding m allMatchingBlocksByType_append loop_append by simp
    next
      case (Inr r1)
      then show ?thesis
        unfolding m allMatchingBlocksByType_append loop_append
        using loop_matched [of "t # remaining" "allMatchingBlocksByType ys t" r1] by simp
    qed
  qed
qed

lemma allMatchingBlocksByType_BlockItem:
  "allMatchingBlocksByType [BlockItem b] t = (if block_Type b = t then [b] else [])"
  by (auto simp add: allMatchingBlocksByType_filter)

lemma findLongestMatchingBlocks_Cons:
  assumes "addr \<noteq> []"
  shows "findLongestMatchingBlocks (pre @ BlockItem b # post) addr =
     (case findLongestMatchingBlocks pre addr of
        Inl e \<Rightarrow> Inl e
      | Inr r1 \<Rightarrow>
          (case findLongestMatchingBlocks [BlockItem b] addr of
             Inl e \<Rightarrow> Inl e
           | Inr r \<Rightarrow>
               (case findLongestMatchingBlocks post addr of
                  Inl e \<Rightarrow> Inl e
                | Inr r2 \<Rightarrow> Inr (r1 @ r @ r2))))"
proof -
  have "pre @ BlockItem b # post = pre @ ([BlockItem b] @ post)" by simp
  then show ?thesis
    by (simp only: findLongestMatchingBlocks_append [OF assms])
      (simp split: sum.splits)
qed

lemma single_other_type:
  assumes "strings_Split addr = t # remaining" "remaining \<noteq> []" "block_Type b \<noteq> t"
  shows "findLongestMatchingBlocks [BlockItem b] addr = Inr []"
  using assms
  by (simp add: findLongestMatchingBlocks_multi [OF assms(1,2)] allMatchingBlocksByType_BlockItem)

lemma single_partial:
  assumes "strings_Split addr = t # remaining" "remaining \<noteq> []"
    "length (longestMatchingLabels (Labels b) remaining) < length (Labels b)"
  shows "findLongestMatchingBlocks [BlockItem b] addr = Inr []"
  using assms(3)
  by (simp add: findLongestMatchingBlocks_multi [OF assms(1,2)] allMatchingBlocksByType_BlockItem
      Let_def)

lemma single_full:
  assumes "strings_Split addr = t # remaining" "remaining \<noteq> []" "block_Type b = t"
    "Labels b \<noteq> []"
    "length (longestMatchingLabels (Labels b) remaining) = length (Labels b)"
    "length (Labels b) = length remaining"
  shows "findLongestMatchingBlocks [BlockItem b] addr = Inr [b]"
  using assms(2-6)
  by (simp add: findLongestMatchingBlocks_multi [OF assms(1,2)] allMatchingBlocksByType_BlockItem
      Let_def)

lemma single_nested:
  assumes "strings_Split addr = t # remaining" "remaining \<noteq> []" "block_Type b = t"
    "length (longestMatchingLabels (Labels b) remaining) = length (Labels b)"
    "length (longestMatchingLabels (Labels b) remaining) < length remaining \<or> Labels b = []"
  shows "findLongestMatchingBlocks [BlockItem b] addr =
           findLongestMatchingBlocks (Body b)
             (strings_Join (drop (length (longestMatchingLabels (Labels b) remaining)) remaining))"
  using assms(2-5)
  by (auto simp add: findLongestMatchingBlocks_multi [OF assms(1,2)]
      allMatchingBlocksByType_BlockItem Let_def split: sum.splits)

section \<open>The label matcher computes the longest common prefix\<close>

lemma longestMatchingLabels_loop_lcp:
  "longestMatchingLabels_loop labels segs i matched =
     matched @ longest_common_prefix (drop i labels) (drop i segs)"
proof (induction labels segs i matched rule: longestMatchingLabels_loop.induct)
  case (1 labels segs i matched)
  show ?case
  proof (cases "i < length segs \<and> i < length labels")
    case False
    then show ?thesis by (subst longestMatchingLabels_loop.simps) auto
  next
    case True
    then have d: "drop i labels = labels ! i # drop (Suc i) labels"
      "drop i segs = segs ! i # drop (Suc i) segs"
      by (simp_all add: Cons_nth_drop_Suc)
    show ?thesis
    proof (cases "segs ! i = labels ! i")
      case False
      with True d show ?thesis by (subst longestMatchingLabels_loop.simps) auto
    next
      case eq: True
      with True have "longestMatchingLabels_loop labels segs i matched =
        longestMatchingLabels_loop labels segs (i + 1) (matched @ [labels ! i])"
        by (subst longestMatchingLabels_loop.simps) simp
      also have "\<dots> = (matched @ [labels ! i]) @
          longest_common_prefix (drop (i + 1) labels) (drop (i + 1) segs)"
        using True eq by (intro "1.IH") auto
      finally show ?thesis using d eq by simp
    qed
  qed
qed

lemma longestMatchingLabels_lcp:
  "longestMatchingLabels labels segs = longest_common_prefix labels segs"
  by (simp add: longestMatchingLabels_def longestMatchingLabels_loop_lcp)

lemma lcp_stop:
  "length (longest_common_prefix xs ys) = length xs \<or>
   length (longest_common_prefix xs ys) = length ys \<or>
   xs ! length (longest_common_prefix xs ys) \<noteq> ys ! length (longest_common_prefix xs ys)"
  by (induction xs ys rule: longest_common_prefix.induct) auto

text \<open>
  C8. \<open>longestMatchingLabels\<close> returns the longest common prefix of the labels and the
  candidate segments: it is a prefix of both, every common prefix is a prefix of it, and it
  ends where one of the sequences is exhausted or the two differ. It is empty when there
  are no labels and when the first elements differ. (A HOL function is pure.)
\<close>

theorem longestMatchingLabels_longest_common_prefix:
  "longestMatchingLabels labels segs = longest_common_prefix labels segs
   \<and> prefix (longestMatchingLabels labels segs) labels
   \<and> prefix (longestMatchingLabels labels segs) segs
   \<and> (\<forall>p. prefix p labels \<and> prefix p segs \<longrightarrow> prefix p (longestMatchingLabels labels segs))
   \<and> (length (longestMatchingLabels labels segs) = length labels
       \<or> length (longestMatchingLabels labels segs) = length segs
       \<or> labels ! length (longestMatchingLabels labels segs)
            \<noteq> segs ! length (longestMatchingLabels labels segs))
   \<and> longestMatchingLabels [] segs = []
   \<and> (l \<noteq> s \<longrightarrow> longestMatchingLabels (l # ls) (s # ss) = [])"
  using lcp_stop [of labels segs]
  by (simp add: longestMatchingLabels_lcp longest_common_prefix_prefix1
      longest_common_prefix_prefix2 longest_common_prefix_max_prefix)

theorem longestMatchingLabels_longest_common_prefix_witness:
  "prefix [''a''] [''a'', ''b''] \<and> prefix [''a''] [''a'', ''c'', ''d'']
   \<and> longestMatchingLabels [''a'', ''b''] [''a'', ''c'', ''d''] = [''a'']
   \<and> prefix [''a''] (longestMatchingLabels [''a'', ''b''] [''a'', ''c'', ''d''])
   \<and> ''x'' \<noteq> ''y''
   \<and> longestMatchingLabels [''x'', ''b''] [''y''] = []"
  using longestMatchingLabels_longest_common_prefix
    [of "[''a'', ''b'']" "[''a'', ''c'', ''d'']" "''x''" "''y''" "[''b'']" "[]"]
  by simp

section \<open>The block resolver: the three ways of treating a candidate\<close>

text \<open>Rules for evaluating the functions on the example documents.\<close>

lemmas eval_simps = findLongestMatchingBlocks.simps longestMatchingLabels_lcp
  allMatchingBlocksByType_filter findAttribute_def Let_def

lemmas pipeline_simps = attributeGet_Filter_def attributeGet_Sink_def NewEmptyFile_def
  SetAttributeRaw_def getAttributeValueAsString_def BuildTokens_def stringAttribute_def quoted_def
  identToken_def equalToken_def newlineToken_def findTokenEqual.simps strings_TrimSpace_def
  trimLeft.simps unicodeSpaces_def

text \<open>
  C1. A candidate block of the addressed type that has labels, whose labels are all matched
  and use up all the remaining segments, is appended itself, as a full match; its body plays
  no part in the result. For the document \<^verbatim>\<open>resource "aws_instance" "foo" { ami = "x" }\<close> the
  block address \<^verbatim>\<open>resource.aws_instance.foo\<close> gives the block, \<open>findAttribute\<close> at
  \<^verbatim>\<open>resource.aws_instance.foo.ami\<close> gives the attribute \<^verbatim>\<open>ami\<close>, and the filter followed by
  the sink writes \<^verbatim>\<open>"x"\<close> and a newline.
\<close>

theorem full_label_match_appends_block:
  "(strings_Split addr = typeName # remaining \<and> remaining \<noteq> []
      \<and> block_Type b = typeName \<and> Labels b \<noteq> []
      \<and> length (longestMatchingLabels (Labels b) remaining) = length (Labels b)
      \<and> length (Labels b) = length remaining
    \<longrightarrow> findLongestMatchingBlocks (pre @ BlockItem b # post) addr =
          (case findLongestMatchingBlocks pre addr of
             Inl e \<Rightarrow> Inl e
           | Inr r1 \<Rightarrow>
               (case findLongestMatchingBlocks post addr of
                  Inl e \<Rightarrow> Inl e
                | Inr r2 \<Rightarrow> Inr (r1 @ [b] @ r2)))
        \<and> findLongestMatchingBlocks_loop (typeName # remaining) (b # bs) matched =
            findLongestMatchingBlocks_loop (typeName # remaining) bs (matched @ [b]))
   \<and> findLongestMatchingBlocks resource_doc ''resource.aws_instance.foo'' = Inr [resource_block]
   \<and> findAttribute resource_doc ''resource.aws_instance.foo.ami'' =
       Inr (Some (stringAttribute ''ami'' ''x''), Some (Body resource_block))
   \<and> Tokens_Bytes (expr (stringAttribute ''ami'' ''x'')) = [CHR '' '', CHR 0x22, CHR ''x'', CHR 0x22]
   \<and> (case attributeGet_Filter \<lparr>address = ''resource.aws_instance.foo.ami''\<rparr>
              \<lparr>file_Body = resource_doc\<rparr> of
         Inl e \<Rightarrow> Inl e
       | Inr outFile \<Rightarrow>
           attributeGet_Sink \<lparr>address = ''resource.aws_instance.foo.ami''\<rparr> outFile)
       = Inr [CHR 0x22, CHR ''x'', CHR 0x22, CHR 0x0A]"
proof -
  have general: "findLongestMatchingBlocks (pre @ BlockItem b # post) addr =
          (case findLongestMatchingBlocks pre addr of
             Inl e \<Rightarrow> Inl e
           | Inr r1 \<Rightarrow>
               (case findLongestMatchingBlocks post addr of
                  Inl e \<Rightarrow> Inl e
                | Inr r2 \<Rightarrow> Inr (r1 @ [b] @ r2)))
        \<and> findLongestMatchingBlocks_loop (typeName # remaining) (b # bs) matched =
            findLongestMatchingBlocks_loop (typeName # remaining) bs (matched @ [b])"
    if h: "strings_Split addr = typeName # remaining" "remaining \<noteq> []"
      "block_Type b = typeName" "Labels b \<noteq> []"
      "length (longestMatchingLabels (Labels b) remaining) = length (Labels b)"
      "length (Labels b) = length remaining"
  proof
    have ne: "addr \<noteq> []" using h(1,2) by auto
    show "findLongestMatchingBlocks (pre @ BlockItem b # post) addr =
          (case findLongestMatchingBlocks pre addr of
             Inl e \<Rightarrow> Inl e
           | Inr r1 \<Rightarrow>
               (case findLongestMatchingBlocks post addr of
                  Inl e \<Rightarrow> Inl e
                | Inr r2 \<Rightarrow> Inr (r1 @ [b] @ r2)))"
      by (simp add: findLongestMatchingBlocks_Cons [OF ne] single_full [OF h] split: sum.splits)
    show "findLongestMatchingBlocks_loop (typeName # remaining) (b # bs) matched =
            findLongestMatchingBlocks_loop (typeName # remaining) bs (matched @ [b])"
      using h(2,4-6) by (simp add: Let_def)
  qed
  have s1: "findLongestMatchingBlocks resource_doc ''resource.aws_instance.foo'' =
      Inr [resource_block]"
    by (simp add: eval_simps resource_doc_def resource_block_def)
  have s2: "findAttribute resource_doc ''resource.aws_instance.foo.ami'' =
       Inr (Some (stringAttribute ''ami'' ''x''), Some (Body resource_block))"
    by (simp add: eval_simps resource_doc_def resource_block_def stringAttribute_def)
  have s3: "Tokens_Bytes (expr (stringAttribute ''ami'' ''x'')) =
      [CHR '' '', CHR 0x22, CHR ''x'', CHR 0x22]"
    by (simp add: stringAttribute_def quoted_def)
  have s4: "(case attributeGet_Filter \<lparr>address = ''resource.aws_instance.foo.ami''\<rparr>
              \<lparr>file_Body = resource_doc\<rparr> of
         Inl e \<Rightarrow> Inl e
       | Inr outFile \<Rightarrow>
           attributeGet_Sink \<lparr>address = ''resource.aws_instance.foo.ami''\<rparr> outFile)
       = Inr [CHR 0x22, CHR ''x'', CHR 0x22, CHR 0x0A]"
    by (simp add: s2 pipeline_simps)
  from general s1 s2 s3 s4 show ?thesis by blast
qed

theorem full_label_match_appends_block_witness:
  "strings_Split ''resource.aws_instance.foo'' = ''resource'' # [''aws_instance'', ''foo'']
   \<and> block_Type resource_block = ''resource'' \<and> Labels resource_block \<noteq> []
   \<and> length (longestMatchingLabels (Labels resource_block) [''aws_instance'', ''foo''])
       = length (Labels resource_block)
   \<and> length (Labels resource_block) = length [''aws_instance'', ''foo'']
   \<and> findLongestMatchingBlocks ([] @ BlockItem resource_block # []) ''resource.aws_instance.foo''
       = Inr [resource_block]"
proof -
  have h: "strings_Split ''resource.aws_instance.foo'' = ''resource'' # [''aws_instance'', ''foo'']
     \<and> [''aws_instance'', ''foo''] \<noteq> []
     \<and> block_Type resource_block = ''resource'' \<and> Labels resource_block \<noteq> []
     \<and> length (longestMatchingLabels (Labels resource_block) [''aws_instance'', ''foo''])
         = length (Labels resource_block)
     \<and> length (Labels resource_block) = length [''aws_instance'', ''foo'']"
    by (simp add: resource_block_def longestMatchingLabels_lcp)
  have e: "findLongestMatchingBlocks [] ''resource.aws_instance.foo'' = Inr []"
    by (simp add: eval_simps)
  note t = full_label_match_appends_block
    [of "''resource.aws_instance.foo''" "''resource''" "[''aws_instance'', ''foo'']"
        resource_block "[]" "[]" "[]" "[]", THEN conjunct1, THEN mp, OF h, THEN conjunct1]
  show ?thesis using t h by (simp add: e)
qed

text \<open>
  C2. A candidate block whose labels are matched only in part is left out: the result is that
  of the body without the block (whatever its nested body holds), and the loop goes on with
  its accumulator unchanged. The block with labels \<^verbatim>\<open>x\<close>, \<^verbatim>\<open>y\<close> is not found by \<^verbatim>\<open>t.x.z.attr\<close>,
  although its body has a block \<^verbatim>\<open>x "z"\<close> that a nested search would find.
\<close>

theorem partial_label_match_excludes_block:
  "(strings_Split addr = typeName # remaining \<and> remaining \<noteq> [] \<and> Labels b \<noteq> []
      \<and> length (longestMatchingLabels (Labels b) remaining) < length (Labels b)
    \<longrightarrow> findLongestMatchingBlocks (pre @ BlockItem b # post) addr =
          findLongestMatchingBlocks (pre @ post) addr
        \<and> findLongestMatchingBlocks_loop (typeName # remaining) (b # bs) matched =
            findLongestMatchingBlocks_loop (typeName # remaining) bs matched)
   \<and> longestMatchingLabels (Labels xy_block) [''x'', ''z'', ''attr''] = [''x'']
   \<and> findLongestMatchingBlocks [BlockItem xy_block] ''t.x.z.attr'' = Inr []
   \<and> findLongestMatchingBlocks [BlockItem xy_block] ''t.x.z'' = Inr []
   \<and> findAttribute [BlockItem xy_block] ''t.x.z.attr'' = Inr (None, None)
   \<and> findLongestMatchingBlocks (Body xy_block) ''x.z'' =
       Inr [Block ''x'' [''z''] [AttributeItem (stringAttribute ''attr'' ''v'')]]"
proof -
  have general: "findLongestMatchingBlocks (pre @ BlockItem b # post) addr =
          findLongestMatchingBlocks (pre @ post) addr
        \<and> findLongestMatchingBlocks_loop (typeName # remaining) (b # bs) matched =
            findLongestMatchingBlocks_loop (typeName # remaining) bs matched"
    if h: "strings_Split addr = typeName # remaining" "remaining \<noteq> []"
      "length (longestMatchingLabels (Labels b) remaining) < length (Labels b)"
  proof
    have ne: "addr \<noteq> []" using h(1,2) by auto
    show "findLongestMatchingBlocks (pre @ BlockItem b # post) addr =
          findLongestMatchingBlocks (pre @ post) addr"
      unfolding findLongestMatchingBlocks_Cons [OF ne] single_partial [OF h]
        findLongestMatchingBlocks_append [OF ne, of pre post]
      by (simp split: sum.splits)
    show "findLongestMatchingBlocks_loop (typeName # remaining) (b # bs) matched =
            findLongestMatchingBlocks_loop (typeName # remaining) bs matched"
      using h(3) by (simp add: Let_def)
  qed
  have s0: "longestMatchingLabels (Labels xy_block) [''x'', ''z'', ''attr''] = [''x'']"
    by (simp add: xy_block_def longestMatchingLabels_lcp)
  have s1: "findLongestMatchingBlocks [BlockItem xy_block] ''t.x.z.attr'' = Inr []"
    by (simp add: eval_simps xy_block_def)
  have s2: "findLongestMatchingBlocks [BlockItem xy_block] ''t.x.z'' = Inr []"
    by (simp add: eval_simps xy_block_def)
  have s3: "findAttribute [BlockItem xy_block] ''t.x.z.attr'' = Inr (None, None)"
    by (simp add: eval_simps xy_block_def)
  have s4: "findLongestMatchingBlocks (Body xy_block) ''x.z'' =
       Inr [Block ''x'' [''z''] [AttributeItem (stringAttribute ''attr'' ''v'')]]"
    by (simp add: eval_simps xy_block_def)
  from general s0 s1 s2 s3 s4 show ?thesis by blast
qed

theorem partial_label_match_excludes_block_witness:
  "strings_Split ''t.x.z.attr'' = ''t'' # [''x'', ''z'', ''attr'']
   \<and> [''x'', ''z'', ''attr''] \<noteq> []
   \<and> Labels xy_block \<noteq> []
   \<and> length (longestMatchingLabels (Labels xy_block) [''x'', ''z'', ''attr''])
       < length (Labels xy_block)
   \<and> findLongestMatchingBlocks ([] @ BlockItem xy_block # []) ''t.x.z.attr'' = Inr []"
proof -
  have h: "strings_Split ''t.x.z.attr'' = ''t'' # [''x'', ''z'', ''attr'']
     \<and> [''x'', ''z'', ''attr''] \<noteq> []
     \<and> Labels xy_block \<noteq> []
     \<and> length (longestMatchingLabels (Labels xy_block) [''x'', ''z'', ''attr''])
         < length (Labels xy_block)"
    by (simp add: xy_block_def longestMatchingLabels_lcp)
  have e: "findLongestMatchingBlocks [] ''t.x.z.attr'' = Inr []"
    by (simp add: eval_simps)
  note t = partial_label_match_excludes_block
    [of "''t.x.z.attr''" "''t''" "[''x'', ''z'', ''attr'']" xy_block "[]" "[]" "[]" "[]",
      THEN conjunct1, THEN mp, OF h, THEN conjunct1]
  show ?thesis using t h by (simp add: e)
qed

lemma longestMatchingLabels_length_le:
  "length (longestMatchingLabels labels segs) \<le> length labels"
  using longest_common_prefix_prefix1 [of labels segs]
  by (simp add: longestMatchingLabels_lcp prefix_length_le)

text \<open>
  C3. A candidate block of the addressed type that is not left out by the label rule, and
  whose matched labels are fewer than the remaining segments or which has no labels, is
  searched: the resolver is called on its body with the remaining segments after the matched
  labels, joined with dots (splitting that address gives these segments back unchanged), and
  what the call returns is appended in order, between the results of the blocks before and
  after; an error of the call is the result. A block without labels and the remaining
  segments \<^verbatim>\<open>child\<close>, \<^verbatim>\<open>attr\<close> is searched with the address \<^verbatim>\<open>child.attr\<close>.
\<close>

theorem leftover_or_zero_labels_recurse:
  "(strings_Split addr = typeName # remaining \<and> remaining \<noteq> []
      \<and> block_Type b = typeName
      \<and> matchedlabels = longestMatchingLabels (Labels b) remaining
      \<and> \<not> length matchedlabels < length (Labels b)
      \<and> (length matchedlabels < length remaining \<or> length (Labels b) = 0)
    \<longrightarrow> findLongestMatchingBlocks (pre @ BlockItem b # post) addr =
          (case findLongestMatchingBlocks pre addr of
             Inl e \<Rightarrow> Inl e
           | Inr r1 \<Rightarrow>
               (case findLongestMatchingBlocks (Body b)
                       (strings_Join (drop (length matchedlabels) remaining)) of
                  Inl e \<Rightarrow> Inl e
                | Inr nested \<Rightarrow>
                    (case findLongestMatchingBlocks post addr of
                       Inl e \<Rightarrow> Inl e
                     | Inr r2 \<Rightarrow> Inr (r1 @ nested @ r2))))
        \<and> strings_Split (strings_Join (drop (length matchedlabels) remaining)) =
            drop (length matchedlabels) remaining
        \<and> findLongestMatchingBlocks_loop (typeName # remaining) (b # bs) matched =
            (case findLongestMatchingBlocks (Body b)
                    (strings_Join (drop (length matchedlabels) remaining)) of
               Inl e \<Rightarrow> Inl e
             | Inr nested \<Rightarrow>
                 findLongestMatchingBlocks_loop (typeName # remaining) bs (matched @ nested)))
   \<and> findLongestMatchingBlocks [BlockItem parent_block] ''parent.child.attr'' =
       findLongestMatchingBlocks (Body parent_block) ''child.attr''
   \<and> strings_Split ''child.attr'' = [''child'', ''attr'']
   \<and> findLongestMatchingBlocks [BlockItem parent_block] ''parent.child'' = Inr [child_block]
   \<and> findAttribute [BlockItem parent_block] ''parent.child.attr'' =
       Inr (Some (stringAttribute ''attr'' ''v''), Some (Body child_block))"
proof -
  have general: "findLongestMatchingBlocks (pre @ BlockItem b # post) addr =
          (case findLongestMatchingBlocks pre addr of
             Inl e \<Rightarrow> Inl e
           | Inr r1 \<Rightarrow>
               (case findLongestMatchingBlocks (Body b)
                       (strings_Join (drop (length matchedlabels) remaining)) of
                  Inl e \<Rightarrow> Inl e
                | Inr nested \<Rightarrow>
                    (case findLongestMatchingBlocks post addr of
                       Inl e \<Rightarrow> Inl e
                     | Inr r2 \<Rightarrow> Inr (r1 @ nested @ r2))))
        \<and> strings_Split (strings_Join (drop (length matchedlabels) remaining)) =
            drop (length matchedlabels) remaining
        \<and> findLongestMatchingBlocks_loop (typeName # remaining) (b # bs) matched =
            (case findLongestMatchingBlocks (Body b)
                    (strings_Join (drop (length matchedlabels) remaining)) of
               Inl e \<Rightarrow> Inl e
             | Inr nested \<Rightarrow>
                 findLongestMatchingBlocks_loop (typeName # remaining) bs (matched @ nested))"
    if h: "strings_Split addr = typeName # remaining" "remaining \<noteq> []"
      "block_Type b = typeName"
      "matchedlabels = longestMatchingLabels (Labels b) remaining"
      "\<not> length matchedlabels < length (Labels b)"
      "length matchedlabels < length remaining \<or> length (Labels b) = 0"
  proof (intro conjI)
    have ne: "addr \<noteq> []" using h(1,2) by auto
    have eq: "length (longestMatchingLabels (Labels b) remaining) = length (Labels b)"
      using h(4,5) longestMatchingLabels_length_le [of "Labels b" remaining] by simp
    have br: "length (longestMatchingLabels (Labels b) remaining) < length remaining
        \<or> Labels b = []"
      using h(4,6) by simp
    show "findLongestMatchingBlocks (pre @ BlockItem b # post) addr =
          (case findLongestMatchingBlocks pre addr of
             Inl e \<Rightarrow> Inl e
           | Inr r1 \<Rightarrow>
               (case findLongestMatchingBlocks (Body b)
                       (strings_Join (drop (length matchedlabels) remaining)) of
                  Inl e \<Rightarrow> Inl e
                | Inr nested \<Rightarrow>
                    (case findLongestMatchingBlocks post addr of
                       Inl e \<Rightarrow> Inl e
                     | Inr r2 \<Rightarrow> Inr (r1 @ nested @ r2))))"
      unfolding findLongestMatchingBlocks_Cons [OF ne] single_nested [OF h(1,2,3) eq br] h(4)
      by simp
    have d: "drop (length matchedlabels) remaining \<noteq> []"
      using h(2,6) eq h(4) by auto
    have "set (drop (length matchedlabels) remaining) \<subseteq> set (strings_Split addr)"
      using h(1) set_drop_subset [of "length matchedlabels" remaining] by auto
    then have "\<forall>seg \<in> set (drop (length matchedlabels) remaining). CHR ''.'' \<notin> set seg"
      using strings_Split_no_dot by blast
    with d show "strings_Split (strings_Join (drop (length matchedlabels) remaining)) =
            drop (length matchedlabels) remaining"
      by (rule strings_Split_Join)
    show "findLongestMatchingBlocks_loop (typeName # remaining) (b # bs) matched =
            (case findLongestMatchingBlocks (Body b)
                    (strings_Join (drop (length matchedlabels) remaining)) of
               Inl e \<Rightarrow> Inl e
             | Inr nested \<Rightarrow>
                 findLongestMatchingBlocks_loop (typeName # remaining) bs (matched @ nested))"
      using h(4,5,6) by (simp add: Let_def)
  qed
  have s1: "findLongestMatchingBlocks [BlockItem parent_block] ''parent.child.attr'' =
       findLongestMatchingBlocks (Body parent_block) ''child.attr''"
    by (simp add: eval_simps parent_block_def child_block_def)
  have s2: "strings_Split ''child.attr'' = [''child'', ''attr'']"
    by simp
  have s3: "findLongestMatchingBlocks [BlockItem parent_block] ''parent.child'' = Inr [child_block]"
    by (simp add: eval_simps parent_block_def child_block_def)
  have s4: "findAttribute [BlockItem parent_block] ''parent.child.attr'' =
       Inr (Some (stringAttribute ''attr'' ''v''), Some (Body child_block))"
    by (simp add: eval_simps parent_block_def child_block_def stringAttribute_def)
  from general s1 s2 s3 s4 show ?thesis by blast
qed

theorem leftover_or_zero_labels_recurse_witness:
  "strings_Split ''parent.child.attr'' = ''parent'' # [''child'', ''attr'']
   \<and> [''child'', ''attr''] \<noteq> []
   \<and> block_Type parent_block = ''parent''
   \<and> [] = longestMatchingLabels (Labels parent_block) [''child'', ''attr'']
   \<and> \<not> length ([] :: string list) < length (Labels parent_block)
   \<and> (length ([] :: string list) < length [''child'', ''attr'']
        \<or> length (Labels parent_block) = 0)
   \<and> findLongestMatchingBlocks ([] @ BlockItem parent_block # []) ''parent.child.attr'' =
       (case findLongestMatchingBlocks (Body parent_block) ''child.attr'' of
          Inl e \<Rightarrow> Inl e | Inr nested \<Rightarrow> Inr nested)
   \<and> strings_Split (strings_Join (drop 0 [''child'', ''attr''])) = [''child'', ''attr'']"
proof -
  have h: "strings_Split ''parent.child.attr'' = ''parent'' # [''child'', ''attr'']
     \<and> [''child'', ''attr''] \<noteq> []
     \<and> block_Type parent_block = ''parent''
     \<and> [] = longestMatchingLabels (Labels parent_block) [''child'', ''attr'']
     \<and> \<not> length ([] :: string list) < length (Labels parent_block)
     \<and> (length ([] :: string list) < length [''child'', ''attr'']
          \<or> length (Labels parent_block) = 0)"
    by (simp add: parent_block_def longestMatchingLabels_lcp)
  have e: "findLongestMatchingBlocks [] ''parent.child.attr'' = Inr []"
    by (simp add: eval_simps)
  note t = leftover_or_zero_labels_recurse
    [of "''parent.child.attr''" "''parent''" "[''child'', ''attr'']" parent_block "[]"
        "[]" "[]" "[]" "[]", THEN conjunct1, THEN mp, OF h]
  show ?thesis using t h by (simp add: e split: sum.splits)
qed

text \<open>
  C4. For an address that is one bare type name (not empty, no dot) the resolver returns the
  child blocks of the body of that type, in document order, whatever their labels.
\<close>

theorem bare_type_name_returns_same_typed_children:
  "addr \<noteq> [] \<Longrightarrow> CHR ''.'' \<notin> set addr \<Longrightarrow>
   findLongestMatchingBlocks body addr = Inr (filter (\<lambda>b. block_Type b = addr) (Blocks body))"
  by (simp add: findLongestMatchingBlocks_single allMatchingBlocksByType_filter)

theorem bare_type_name_returns_same_typed_children_witness:
  "''a'' \<noteq> [] \<and> CHR ''.'' \<notin> set ''a''
   \<and> findLongestMatchingBlocks dup_doc ''a'' =
       Inr [Block ''a'' [] [AttributeItem (stringAttribute ''b'' ''1'')],
            Block ''a'' [''l''] [AttributeItem (stringAttribute ''b'' ''2'')]]"
  using bare_type_name_returns_same_typed_children [of "''a''" dup_doc]
  by (simp add: dup_doc_def)

section \<open>Properties of the attribute resolver\<close>

text \<open>
  C5. For an address that is not empty and has no dot, \<open>findAttribute\<close> returns the attribute
  of that name in the body itself (none when it is absent) together with the body, and no
  error; the resolver is not involved.
\<close>

theorem findAttribute_without_dot:
  "addr \<noteq> [] \<Longrightarrow> CHR ''.'' \<notin> set addr \<Longrightarrow>
   findAttribute body addr = Inr (GetAttribute body addr, Some body)"
  by (simp add: findAttribute_def strings_Split_single)

theorem findAttribute_without_dot_witness:
  "''c'' \<noteq> [] \<and> CHR ''.'' \<notin> set ''c''
   \<and> findAttribute dup_doc ''c'' = Inr (Some (stringAttribute ''c'' ''3''), Some dup_doc)
   \<and> ''b'' \<noteq> [] \<and> CHR ''.'' \<notin> set ''b''
   \<and> findAttribute dup_doc ''b'' = Inr (None, Some dup_doc)"
  using findAttribute_without_dot [of "''c''" dup_doc]
    findAttribute_without_dot [of "''b''" dup_doc]
  by (simp add: dup_doc_def stringAttribute_def)

lemma findAttribute_loop_find:
  "findAttribute_loop blocks attrName =
     (case List.find (\<lambda>b. GetAttribute (Body b) attrName \<noteq> None) blocks of
        None \<Rightarrow> (None, None)
      | Some b \<Rightarrow> (GetAttribute (Body b) attrName, Some (Body b)))"
  by (induction blocks) (auto split: option.splits)

text \<open>
  C6. For an address with dots, the last segment is the attribute name and the segments
  before it, joined, are the block address. When the resolver returns blocks,
  \<open>findAttribute\<close> returns the attribute and body of the first of them, in match order, whose
  body has the attribute, and \<open>(None, None)\<close> when there is no such block (in particular when
  no block matched); an error of the resolver is passed on. For \<^verbatim>\<open>a { b = "1" } a { b = "2" }\<close> and
  \<^verbatim>\<open>a.b\<close> both blocks match and the attribute of the first one is returned.
\<close>

theorem findAttribute_with_dots:
  "(1 < length (strings_Split addr) \<longrightarrow>
      (\<forall>blocks. findLongestMatchingBlocks body (strings_Join (butlast (strings_Split addr)))
                  = Inr blocks \<longrightarrow>
         findAttribute body addr =
           Inr (case List.find (\<lambda>b. GetAttribute (Body b) (last (strings_Split addr)) \<noteq> None)
                       blocks of
                  None \<Rightarrow> (None, None)
                | Some b \<Rightarrow>
                    (GetAttribute (Body b) (last (strings_Split addr)), Some (Body b))))
      \<and> (\<forall>e. findLongestMatchingBlocks body (strings_Join (butlast (strings_Split addr)))
                  = Inl e \<longrightarrow>
           findAttribute body addr = Inl e))
   \<and> findLongestMatchingBlocks ab_doc ''a'' =
       Inr [Block ''a'' [] [AttributeItem (stringAttribute ''b'' ''1'')],
            Block ''a'' [] [AttributeItem (stringAttribute ''b'' ''2'')]]
   \<and> findAttribute ab_doc ''a.b'' =
       Inr (Some (stringAttribute ''b'' ''1''), Some [AttributeItem (stringAttribute ''b'' ''1'')])
   \<and> findAttribute ab_doc ''a.c'' = Inr (None, None)
   \<and> findAttribute ab_doc ''x.b'' = Inr (None, None)"
proof -
  have general: "(\<forall>blocks. findLongestMatchingBlocks body
                    (strings_Join (butlast (strings_Split addr))) = Inr blocks \<longrightarrow>
         findAttribute body addr =
           Inr (case List.find (\<lambda>b. GetAttribute (Body b) (last (strings_Split addr)) \<noteq> None)
                       blocks of
                  None \<Rightarrow> (None, None)
                | Some b \<Rightarrow>
                    (GetAttribute (Body b) (last (strings_Split addr)), Some (Body b))))
      \<and> (\<forall>e. findLongestMatchingBlocks body (strings_Join (butlast (strings_Split addr)))
                  = Inl e \<longrightarrow>
           findAttribute body addr = Inl e)"
    if h: "1 < length (strings_Split addr)"
  proof -
    have ne: "addr \<noteq> []" using h by auto
    have n1: "length (strings_Split addr) \<noteq> 1" using h by simp
    have l: "strings_Split addr ! (length (strings_Split addr) - Suc 0) = last (strings_Split addr)"
      using strings_Split_not_Nil [of addr] by (simp add: last_conv_nth)
    have b: "take (length (strings_Split addr) - Suc 0) (strings_Split addr) =
        butlast (strings_Split addr)"
      by (simp add: butlast_conv_take)
    show ?thesis
      using ne n1
      by (auto simp add: findAttribute_def Let_def l b findAttribute_loop_find)
  qed
  have s1: "findLongestMatchingBlocks ab_doc ''a'' =
       Inr [Block ''a'' [] [AttributeItem (stringAttribute ''b'' ''1'')],
            Block ''a'' [] [AttributeItem (stringAttribute ''b'' ''2'')]]"
    by (simp add: eval_simps ab_doc_def)
  have s2: "findAttribute ab_doc ''a.b'' =
       Inr (Some (stringAttribute ''b'' ''1''), Some [AttributeItem (stringAttribute ''b'' ''1'')])"
    by (simp add: eval_simps ab_doc_def stringAttribute_def)
  have s3: "findAttribute ab_doc ''a.c'' = Inr (None, None)"
    by (simp add: eval_simps ab_doc_def stringAttribute_def)
  have s4: "findAttribute ab_doc ''x.b'' = Inr (None, None)"
    by (simp add: eval_simps ab_doc_def stringAttribute_def)
  from general s1 s2 s3 s4 show ?thesis by blast
qed

theorem findAttribute_with_dots_witness:
  "1 < length (strings_Split ''a.b'')
   \<and> findLongestMatchingBlocks ab_doc (strings_Join (butlast (strings_Split ''a.b''))) =
       Inr (Blocks ab_doc)
   \<and> findAttribute ab_doc ''a.b'' =
       Inr (Some (stringAttribute ''b'' ''1''), Some [AttributeItem (stringAttribute ''b'' ''1'')])"
proof -
  have h1: "1 < length (strings_Split ''a.b'')" by simp
  have h2: "findLongestMatchingBlocks ab_doc (strings_Join (butlast (strings_Split ''a.b''))) =
       Inr (Blocks ab_doc)"
    by (simp add: eval_simps ab_doc_def)
  note t = findAttribute_with_dots [of "''a.b''" ab_doc, THEN conjunct1, THEN mp, OF h1,
      THEN conjunct1, THEN spec, THEN mp, OF h2]
  show ?thesis using t h1 h2 by (simp add: ab_doc_def stringAttribute_def)
qed

section \<open>The empty address\<close>

lemma loop_error_from_nested:
  "findLongestMatchingBlocks_loop a bs matched = Inl e \<Longrightarrow>
   \<exists>b \<in> set bs.
     \<not> length (longestMatchingLabels (Labels b) (tl a)) < length (Labels b)
     \<and> (length (longestMatchingLabels (Labels b) (tl a)) < length a - 1 \<or> length (Labels b) = 0)
     \<and> findLongestMatchingBlocks (Body b)
          (strings_Join (drop (1 + length (longestMatchingLabels (Labels b) (tl a))) a)) = Inl e"
proof (induction bs arbitrary: matched)
  case Nil
  then show ?case by simp
next
  case (Cons b bs)
  let ?ml = "longestMatchingLabels (Labels b) (tl a)"
  consider (skip) "length ?ml < length (Labels b)"
    | (nested) "\<not> length ?ml < length (Labels b)"
        "length ?ml < length a - 1 \<or> length (Labels b) = 0"
    | (full) "\<not> length ?ml < length (Labels b)"
        "\<not> (length ?ml < length a - 1 \<or> length (Labels b) = 0)"
    by blast
  then show ?case
  proof cases
    case skip
    with Cons.prems have "findLongestMatchingBlocks_loop a bs matched = Inl e"
      by (simp only: loop_skip)
    from Cons.IH [OF this] show ?thesis by auto
  next
    case nested
    show ?thesis
    proof (cases "findLongestMatchingBlocks (Body b) (strings_Join (drop (1 + length ?ml) a))")
      case (Inl e')
      with Cons.prems have "e' = e"
        by (simp only: loop_nested [OF nested] sum.case sum.inject)
      with Inl nested show ?thesis by auto
    next
      case (Inr n)
      with Cons.prems have "findLongestMatchingBlocks_loop a bs (matched @ n) = Inl e"
        by (simp only: loop_nested [OF nested] sum.case)
      from Cons.IH [OF this] show ?thesis by auto
    qed
  next
    case full
    with Cons.prems have "findLongestMatchingBlocks_loop a bs (matched @ [b]) = Inl e"
      by (simp only: loop_full [OF full])
    from Cons.IH [OF this] show ?thesis by auto
  qed
qed

lemma loop_error_if_nested:
  "b \<in> set bs \<Longrightarrow>
   \<not> length (longestMatchingLabels (Labels b) (tl a)) < length (Labels b) \<Longrightarrow>
   length (longestMatchingLabels (Labels b) (tl a)) < length a - 1 \<or> length (Labels b) = 0 \<Longrightarrow>
   findLongestMatchingBlocks (Body b)
     (strings_Join (drop (1 + length (longestMatchingLabels (Labels b) (tl a))) a)) = Inl e \<Longrightarrow>
   \<exists>e'. findLongestMatchingBlocks_loop a bs matched = Inl e'"
proof -
  assume b: "b \<in> set bs"
    and n: "\<not> length (longestMatchingLabels (Labels b) (tl a)) < length (Labels b)"
      "length (longestMatchingLabels (Labels b) (tl a)) < length a - 1 \<or> length (Labels b) = 0"
    and f: "findLongestMatchingBlocks (Body b)
     (strings_Join (drop (1 + length (longestMatchingLabels (Labels b) (tl a))) a)) = Inl e"
  from b obtain pre post where bs: "bs = pre @ b # post"
    by (auto simp: in_set_conv_decomp)
  have "findLongestMatchingBlocks_loop a (b # post) m = Inl e" for m
    by (simp only: loop_nested [OF n] f sum.case)
  then show ?thesis
    unfolding bs loop_append [of a pre "b # post" matched]
    by (cases "findLongestMatchingBlocks_loop a pre matched") simp_all
qed

lemma countItem_Body_less:
  assumes "b \<in> set (allMatchingBlocksByType body t)"
  shows "sum_list (map countItem (Body b)) < sum_list (map countItem body)"
proof -
  from assms have "b \<in> set (Blocks body)"
    by (simp add: allMatchingBlocksByType_filter)
  then have "countBlocks b \<le> sum_list (map countBlocks (Blocks body))"
    by (simp add: member_le_sum_list)
  then show ?thesis
    by (simp add: countBlocks_Blocks countBlocks_Body [of b])
qed

lemma findLongestMatchingBlocks_error_step:
  assumes "findLongestMatchingBlocks body addr = Inl e" "addr \<noteq> []"
  shows "\<exists>typeName remaining b.
           strings_Split addr = typeName # remaining \<and> remaining \<noteq> []
           \<and> b \<in> set (allMatchingBlocksByType body typeName)
           \<and> \<not> length (longestMatchingLabels (Labels b) remaining) < length (Labels b)
           \<and> (length (longestMatchingLabels (Labels b) remaining) < length remaining
                \<or> length (Labels b) = 0)
           \<and> findLongestMatchingBlocks (Body b)
                (strings_Join (drop (length (longestMatchingLabels (Labels b) remaining))
                   remaining)) = Inl e"
proof (cases "strings_Split addr")
  case Nil
  then show ?thesis using strings_Split_not_Nil by simp
next
  case (Cons typeName remaining)
  show ?thesis
  proof (cases "remaining = []")
    case True
    then have "CHR ''.'' \<notin> set addr"
      using Cons strings_Split_length_1 [of addr] by simp
    then show ?thesis
      using assms by (simp add: findLongestMatchingBlocks_single)
  next
    case False
    from assms(1) have "findLongestMatchingBlocks_loop (typeName # remaining)
        (allMatchingBlocksByType body typeName) [] = Inl e"
      by (simp only: findLongestMatchingBlocks_multi [OF Cons False])
    from loop_error_from_nested [OF this] Cons False show ?thesis
      by auto
  qed
qed

lemma findLongestMatchingBlocks_error_nestedCall:
  "findLongestMatchingBlocks body addr = Inl e \<Longrightarrow>
   e = EmptyAddressError \<and> (\<exists>body'. nestedCall body addr body' [])"
proof (induction "sum_list (map countItem body)" arbitrary: body addr rule: less_induct)
  case less
  show ?case
  proof (cases "addr = []")
    case True
    with less.prems show ?thesis
      by (auto simp add: findLongestMatchingBlocks.simps intro: nestedCall_self)
  next
    case False
    from findLongestMatchingBlocks_error_step [OF less.prems False]
    obtain typeName remaining b where
      s: "strings_Split addr = typeName # remaining" "remaining \<noteq> []"
      and b: "b \<in> set (allMatchingBlocksByType body typeName)"
      and n: "\<not> length (longestMatchingLabels (Labels b) remaining) < length (Labels b)"
        "length (longestMatchingLabels (Labels b) remaining) < length remaining
           \<or> length (Labels b) = 0"
      and f: "findLongestMatchingBlocks (Body b)
                (strings_Join (drop (length (longestMatchingLabels (Labels b) remaining))
                   remaining)) = Inl e"
      by blast
    from less.hyps [OF countItem_Body_less [OF b] f]
    obtain body' where e: "e = EmptyAddressError"
      and c: "nestedCall (Body b)
        (strings_Join (drop (length (longestMatchingLabels (Labels b) remaining)) remaining))
        body' []"
      by blast
    from nestedCall_step [OF False s b n c] e show ?thesis by blast
  qed
qed

lemma nestedCall_empty_error:
  "nestedCall body addr body' addr' \<Longrightarrow> addr' = [] \<Longrightarrow>
   \<exists>e. findLongestMatchingBlocks body addr = Inl e"
proof (induction rule: nestedCall.induct)
  case (nestedCall_self body addr)
  then show ?case by (simp add: findLongestMatchingBlocks.simps)
next
  case (nestedCall_step addr typeName remaining b body body' addr')
  from nestedCall_step.IH [OF nestedCall_step.prems]
  obtain e where "findLongestMatchingBlocks (Body b)
       (strings_Join (drop (length (longestMatchingLabels (Labels b) remaining)) remaining)) = Inl e"
    by blast
  then have "\<exists>e'. findLongestMatchingBlocks_loop (typeName # remaining)
      (allMatchingBlocksByType body typeName) [] = Inl e'"
    using nestedCall_step.hyps(4,5,6)
    by (intro loop_error_if_nested [of b]) simp_all
  then show ?case
    by (simp only: findLongestMatchingBlocks_multi [OF nestedCall_step.hyps(2,3)])
qed

lemma findLongestMatchingBlocks_fails_iff:
  "(\<exists>e. findLongestMatchingBlocks body addr = Inl e) \<longleftrightarrow> (\<exists>body'. nestedCall body addr body' [])"
  using findLongestMatchingBlocks_error_nestedCall nestedCall_empty_error by blast

lemma findAttribute_error:
  "findAttribute body addr = Inl e \<longleftrightarrow>
     (addr = [] \<and> e = EmptyAddressError)
     \<or> (addr \<noteq> [] \<and> 1 < length (strings_Split addr)
         \<and> findLongestMatchingBlocks body (strings_Join (butlast (strings_Split addr))) = Inl e)"
proof (cases "addr = []")
  case True
  then show ?thesis by (auto simp add: findAttribute_def)
next
  case False
  have b: "take (length (strings_Split addr) - Suc 0) (strings_Split addr) =
        butlast (strings_Split addr)"
    by (simp add: butlast_conv_take)
  have "length (strings_Split addr) = 1 \<or> 1 < length (strings_Split addr)"
    using strings_Split_not_Nil [of addr] by (cases "strings_Split addr") auto
  then show ?thesis
    using False by (auto simp add: findAttribute_def Let_def b split: sum.splits)
qed

text \<open>
  C7. \<open>findAttribute\<close> and the resolver fail on the empty address, whatever the document,
  and the only error either of them returns is the one for the empty address. The resolver
  fails exactly when one of the calls it leads to has the empty address; \<open>findAttribute\<close>
  fails exactly when its address is empty or, for an address with dots, the resolver fails on
  the block address derived from it. When a block without labels is searched with an address
  that has become empty, the whole resolution fails: the block is not skipped. Examples:
  \<^verbatim>\<open>a.\<close> for the resolver, \<^verbatim>\<open>a..b\<close> and \<^verbatim>\<open>.b\<close> for \<open>findAttribute\<close>, on the document \<^verbatim>\<open>a {}\<close>.
\<close>

theorem empty_address_error:
  "findAttribute body [] = Inl EmptyAddressError
   \<and> findLongestMatchingBlocks body [] = Inl EmptyAddressError
   \<and> ((\<exists>e. findLongestMatchingBlocks body addr = Inl e)
        \<longleftrightarrow> (\<exists>body'. nestedCall body addr body' []))
   \<and> (findLongestMatchingBlocks body addr = Inl e \<longrightarrow> e = EmptyAddressError)
   \<and> ((\<exists>e. findAttribute body addr = Inl e)
        \<longleftrightarrow> addr = []
            \<or> (1 < length (strings_Split addr)
                \<and> (\<exists>body'. nestedCall body (strings_Join (butlast (strings_Split addr)))
                              body' [])))
   \<and> (findAttribute body addr = Inl e \<longrightarrow> e = EmptyAddressError)
   \<and> (strings_Split addr = typeName # remaining \<and> remaining \<noteq> []
        \<and> block_Type b = typeName \<and> Labels b = [] \<and> strings_Join remaining = []
      \<longrightarrow> findLongestMatchingBlocks (pre @ BlockItem b # post) addr = Inl EmptyAddressError)
   \<and> findLongestMatchingBlocks [BlockItem empty_a_block] ''a.'' = Inl EmptyAddressError
   \<and> findAttribute [BlockItem empty_a_block] ''a..b'' = Inl EmptyAddressError
   \<and> findAttribute [BlockItem empty_a_block] ''.b'' = Inl EmptyAddressError"
proof -
  have c1: "findAttribute body [] = Inl EmptyAddressError"
    by (simp add: findAttribute_def)
  have c2: "findLongestMatchingBlocks body [] = Inl EmptyAddressError"
    by (simp add: findLongestMatchingBlocks.simps)
  have c4: "findLongestMatchingBlocks body addr = Inl e \<longrightarrow> e = EmptyAddressError"
    using findLongestMatchingBlocks_error_nestedCall by blast
  have c5: "(\<exists>e. findAttribute body addr = Inl e)
        \<longleftrightarrow> addr = []
            \<or> (1 < length (strings_Split addr)
                \<and> (\<exists>body'. nestedCall body (strings_Join (butlast (strings_Split addr)))
                              body' []))"
    unfolding findAttribute_error
      findLongestMatchingBlocks_fails_iff [of body "strings_Join (butlast (strings_Split addr))",
        symmetric]
    by blast
  have c6: "findAttribute body addr = Inl e \<longrightarrow> e = EmptyAddressError"
    unfolding findAttribute_error using findLongestMatchingBlocks_error_nestedCall by blast
  have c7: "findLongestMatchingBlocks (pre @ BlockItem b # post) addr = Inl EmptyAddressError"
    if h: "strings_Split addr = typeName # remaining" "remaining \<noteq> []"
      "block_Type b = typeName" "Labels b = []" "strings_Join remaining = []"
  proof -
    have ne: "addr \<noteq> []" using h(1,2) by auto
    have ml: "longestMatchingLabels (Labels b) remaining = []"
      by (simp add: h(4) longestMatchingLabels_lcp)
    have "findLongestMatchingBlocks [BlockItem b] addr =
        findLongestMatchingBlocks (Body b)
          (strings_Join (drop (length (longestMatchingLabels (Labels b) remaining)) remaining))"
      by (rule single_nested [OF h(1,2,3)]) (simp_all add: h(4) longestMatchingLabels_lcp)
    then have one: "findLongestMatchingBlocks [BlockItem b] addr = Inl EmptyAddressError"
      by (simp add: ml h(5) findLongestMatchingBlocks.simps)
    show ?thesis
    proof (cases "findLongestMatchingBlocks pre addr")
      case (Inl e')
      then have "e' = EmptyAddressError"
        using findLongestMatchingBlocks_error_nestedCall by blast
      with Inl show ?thesis
        by (simp add: findLongestMatchingBlocks_Cons [OF ne])
    next
      case (Inr r1)
      then show ?thesis
        by (simp add: findLongestMatchingBlocks_Cons [OF ne] one)
    qed
  qed
  have s1: "findLongestMatchingBlocks [BlockItem empty_a_block] ''a.'' = Inl EmptyAddressError"
    by (simp add: eval_simps empty_a_block_def)
  have s2: "findAttribute [BlockItem empty_a_block] ''a..b'' = Inl EmptyAddressError"
    by (simp add: eval_simps empty_a_block_def)
  have s3: "findAttribute [BlockItem empty_a_block] ''.b'' = Inl EmptyAddressError"
    by (simp add: eval_simps empty_a_block_def)
  from c1 c2 findLongestMatchingBlocks_fails_iff [of body addr] c4 c5 c6 c7 s1 s2 s3
  show ?thesis by blast
qed

theorem empty_address_error_witness:
  "nestedCall [BlockItem empty_a_block] ''a.'' [] []
   \<and> (\<exists>e. findLongestMatchingBlocks [BlockItem empty_a_block] ''a.'' = Inl e)
   \<and> strings_Split ''a.'' = ''a'' # [[]] \<and> [[]] \<noteq> ([] :: string list)
   \<and> block_Type empty_a_block = ''a'' \<and> Labels empty_a_block = []
   \<and> strings_Join [[]] = []
   \<and> findLongestMatchingBlocks ([] @ BlockItem empty_a_block # []) ''a.'' = Inl EmptyAddressError"
proof -
  have "nestedCall (Body empty_a_block)
      (strings_Join (drop (length (longestMatchingLabels (Labels empty_a_block) [[]])) [[]]))
      [] []"
    by (simp add: empty_a_block_def longestMatchingLabels_lcp nestedCall_self)
  then have n: "nestedCall [BlockItem empty_a_block] ''a.'' [] []"
    by (rule nestedCall_step [of "''a.''" "''a''" "[[]]" empty_a_block, rotated -1])
      (simp_all add: empty_a_block_def allMatchingBlocksByType_filter longestMatchingLabels_lcp)
  then have ex: "\<exists>body'. nestedCall [BlockItem empty_a_block] ''a.'' body' []"
    by blast
  note t = empty_address_error [of "[BlockItem empty_a_block]" "''a.''" EmptyAddressError
      "''a''" "[[]]" empty_a_block "[]" "[]"]
  have h: "strings_Split ''a.'' = ''a'' # [[]] \<and> [[]] \<noteq> ([] :: string list)
     \<and> block_Type empty_a_block = ''a'' \<and> Labels empty_a_block = []
     \<and> strings_Join [[]] = []"
    by (simp add: empty_a_block_def)
  from t ex have f: "\<exists>e. findLongestMatchingBlocks [BlockItem empty_a_block] ''a.'' = Inl e"
    by blast
  from t h have z: "findLongestMatchingBlocks ([] @ BlockItem empty_a_block # []) ''a.'' =
      Inl EmptyAddressError"
    by blast
  from n f h z show ?thesis by blast
qed

section \<open>Properties of the value extractor\<close>

lemma findTokenEqual_takeWhile:
  "i \<le> length ts \<Longrightarrow>
   findTokenEqual ts i = i + length (takeWhile (\<lambda>t. Type t \<noteq> TokenEqual) (drop i ts))"
proof (induction ts i rule: findTokenEqual.induct)
  case (1 exprTokens i)
  show ?case
  proof (cases "i < length exprTokens")
    case False
    then show ?thesis by (subst findTokenEqual.simps) simp
  next
    case True
    then have d: "drop i exprTokens = exprTokens ! i # drop (Suc i) exprTokens"
      by (simp add: Cons_nth_drop_Suc)
    show ?thesis
    proof (cases "Type (exprTokens ! i) = TokenEqual")
      case True
      then show ?thesis by (subst findTokenEqual.simps) (simp add: d)
    next
      case False
      with True "1.IH" have "findTokenEqual exprTokens (i + 1) =
          i + 1 + length (takeWhile (\<lambda>t. Type t \<noteq> TokenEqual) (drop (i + 1) exprTokens))"
        by simp
      with True False show ?thesis by (subst findTokenEqual.simps) (simp add: d)
    qed
  qed
qed

lemma collectValueTokens_takeWhile:
  "collectValueTokens ts valueTokens =
     valueTokens @ takeWhile (\<lambda>t. Type t \<noteq> TokenComment) ts"
  by (induction ts valueTokens rule: collectValueTokens.induct) auto

lemma getAttributeValueAsString_no_equal:
  assumes "\<forall>t \<in> set (expr attr). Type t \<noteq> TokenEqual"
  shows "getAttributeValueAsString attr = Inl (TokenEqualNotFound attr)"
proof -
  from assms have tw: "takeWhile (\<lambda>t. Type t \<noteq> TokenEqual) (expr attr) = expr attr"
    by simp
  have "findTokenEqual (expr attr) 0 = length (expr attr)"
    unfolding findTokenEqual_takeWhile [OF le0] drop_0 tw by simp
  then show ?thesis
    by (simp add: getAttributeValueAsString_def Let_def)
qed

lemma getAttributeValueAsString_equal:
  assumes "expr attr = before @ eq # after" "\<forall>t \<in> set before. Type t \<noteq> TokenEqual"
    "Type eq = TokenEqual"
  shows "getAttributeValueAsString attr =
     Inr (strings_TrimSpace (Tokens_Bytes (takeWhile (\<lambda>t. Type t \<noteq> TokenComment) after)))"
proof -
  from assms have "takeWhile (\<lambda>t. Type t \<noteq> TokenEqual) (expr attr) = before"
    by simp
  then have "findTokenEqual (expr attr) 0 = length before"
    by (simp add: findTokenEqual_takeWhile)
  then show ?thesis
    by (simp add: getAttributeValueAsString_def assms(1) collectValueTokens_takeWhile Let_def)
qed

lemma trimLeft_suffix: "suffix (trimLeft seqs s) s"
proof (induction seqs s rule: trimLeft.induct)
  case (1 seqs s)
  show ?case
  proof (cases "List.find (\<lambda>p. p \<noteq> [] \<and> prefix p s) seqs")
    case None
    then show ?thesis by (subst trimLeft.simps) simp
  next
    case (Some p)
    from "1.IH" [OF Some] have "suffix (trimLeft seqs (drop (length p) s)) (drop (length p) s)" .
    then have "suffix (trimLeft seqs (drop (length p) s)) s"
      using suffix_drop suffix_order.trans by blast
    with Some show ?thesis by (subst trimLeft.simps) simp
  qed
qed

lemma trimLeft_no_prefix:
  "p \<in> set seqs \<Longrightarrow> p \<noteq> [] \<Longrightarrow> \<not> prefix p (trimLeft seqs s)"
proof (induction seqs s rule: trimLeft.induct)
  case (1 seqs s)
  show ?case
  proof (cases "List.find (\<lambda>p. p \<noteq> [] \<and> prefix p s) seqs")
    case None
    then have "trimLeft seqs s = s" by (subst trimLeft.simps) simp
    moreover from None "1.prems" have "\<not> prefix p s" by (auto simp: find_None_iff)
    ultimately show ?thesis by simp
  next
    case (Some q)
    from "1.IH" [OF Some "1.prems"] Some show ?thesis
      by (subst trimLeft.simps) simp
  qed
qed

lemma strings_TrimSpace_trimmed:
  assumes "p \<in> set unicodeSpaces"
  shows "\<not> prefix p (strings_TrimSpace s) \<and> \<not> suffix p (strings_TrimSpace s)"
proof
  have pne: "p \<noteq> []" using assms by (auto simp: unicodeSpaces_def)
  let ?y = "trimLeft unicodeSpaces s"
  let ?z = "trimLeft (map rev unicodeSpaces) (rev ?y)"
  have "suffix ?z (rev ?y)" by (rule trimLeft_suffix)
  then have "prefix (rev ?z) ?y"
    by (metis rev_rev_ident suffix_to_prefix)
  moreover have "\<not> prefix p ?y" using assms pne by (rule trimLeft_no_prefix)
  ultimately show "\<not> prefix p (strings_TrimSpace s)"
    unfolding strings_TrimSpace_def using prefix_order.trans by blast
  have "rev p \<in> set (map rev unicodeSpaces)" using assms by simp
  then have "\<not> prefix (rev p) ?z" using pne by (intro trimLeft_no_prefix) simp_all
  then show "\<not> suffix p (strings_TrimSpace s)"
    unfolding strings_TrimSpace_def by (simp add: suffix_to_prefix)
qed

text \<open>
  C9, as the code has it. \<open>getAttributeValueAsString\<close> scans the tokens of the attribute's
  expression (\<^verbatim>\<open>attr.Expr().BuildTokens(nil)\<close>) from the start for a \<^verbatim>\<open>TokenEqual\<close>. It fails when
  there is none. Otherwise it returns the text of the tokens after the first one, up to the
  first \<^verbatim>\<open>TokenComment\<close> or the end, with leading and trailing white space removed (the result
  neither starts nor ends with white space). For the attribute that the filter builds from
  \<^verbatim>\<open>name = "value" # comment\<close>, whose expression holds all the tokens of that attribute, the
  result is \<^verbatim>\<open>"value"\<close>, quotes included.
\<close>

theorem getAttributeValueAsString_scans_expression:
  "((\<forall>t \<in> set (expr attr). Type t \<noteq> TokenEqual)
      \<longrightarrow> getAttributeValueAsString attr = Inl (TokenEqualNotFound attr))
   \<and> (expr attr = before @ eq # after \<and> (\<forall>t \<in> set before. Type t \<noteq> TokenEqual)
        \<and> Type eq = TokenEqual
      \<longrightarrow> getAttributeValueAsString attr =
            Inr (strings_TrimSpace
                   (Tokens_Bytes (takeWhile (\<lambda>t. Type t \<noteq> TokenComment) after))))
   \<and> (\<forall>p \<in> set unicodeSpaces.
         \<not> prefix p (strings_TrimSpace s) \<and> \<not> suffix p (strings_TrimSpace s))
   \<and> getAttributeValueAsString
         \<lparr>leadComments = [], name = ''name'', expr = BuildTokens name_value_attr,
          lineComments = []\<rparr>
       = Inr ([CHR 0x22] @ ''value'' @ [CHR 0x22])"
proof -
  have s1: "getAttributeValueAsString
         \<lparr>leadComments = [], name = ''name'', expr = BuildTokens name_value_attr,
          lineComments = []\<rparr>
       = Inr ([CHR 0x22] @ ''value'' @ [CHR 0x22])"
    by (simp add: pipeline_simps name_value_attr_def)
  from getAttributeValueAsString_no_equal [of attr]
    getAttributeValueAsString_equal [of attr before eq after]
    strings_TrimSpace_trimmed [of _ s] s1
  show ?thesis by blast
qed

theorem getAttributeValueAsString_scans_expression_witness:
  "map Type (expr name_value_attr) = [TokenOQuote, TokenQuotedLit, TokenCQuote]
   \<and> getAttributeValueAsString name_value_attr = Inl (TokenEqualNotFound name_value_attr)
   \<and> BuildTokens name_value_attr =
       [identToken ''name''] @ equalToken # (quoted ''value'' @ lineComments name_value_attr)
   \<and> Type (identToken ''name'') = TokenIdent
   \<and> Type equalToken = TokenEqual
   \<and> getAttributeValueAsString
         \<lparr>leadComments = [], name = ''name'', expr = BuildTokens name_value_attr,
          lineComments = []\<rparr>
       = Inr (strings_TrimSpace (Tokens_Bytes (quoted ''value'')))
   \<and> [CHR '' ''] \<in> set unicodeSpaces
   \<and> \<not> prefix [CHR '' ''] (strings_TrimSpace (Tokens_Bytes (quoted ''value'')))"
proof -
  have h1: "\<forall>t \<in> set (expr name_value_attr). Type t \<noteq> TokenEqual"
    by (simp add: name_value_attr_def quoted_def)
  have h2: "expr \<lparr>leadComments = [], name = ''name'', expr = BuildTokens name_value_attr,
          lineComments = []\<rparr> =
       [identToken ''name''] @ equalToken # (quoted ''value'' @ lineComments name_value_attr)
     \<and> (\<forall>t \<in> set [identToken ''name'']. Type t \<noteq> TokenEqual)
     \<and> Type equalToken = TokenEqual"
    by (simp add: name_value_attr_def BuildTokens_def identToken_def equalToken_def)
  have h3: "[CHR '' ''] \<in> set unicodeSpaces"
    by (simp add: unicodeSpaces_def)
  have tw: "takeWhile (\<lambda>t. Type t \<noteq> TokenComment) (quoted ''value'' @ lineComments name_value_attr)
      = quoted ''value''"
    by (simp add: name_value_attr_def quoted_def)
  note a = getAttributeValueAsString_scans_expression [of name_value_attr,
      THEN conjunct1, THEN mp, OF h1]
  note b = getAttributeValueAsString_scans_expression
    [of "\<lparr>leadComments = [], name = ''name'', expr = BuildTokens name_value_attr,
          lineComments = []\<rparr>" "[identToken ''name'']" equalToken
        "quoted ''value'' @ lineComments name_value_attr",
      THEN conjunct2, THEN conjunct1, THEN mp, OF h2]
  note c = getAttributeValueAsString_scans_expression
    [of _ _ _ _ "Tokens_Bytes (quoted ''value'')",
      THEN conjunct2, THEN conjunct2, THEN conjunct1, THEN bspec, OF h3, THEN conjunct1]
  have h4: "map Type (expr name_value_attr) = [TokenOQuote, TokenQuotedLit, TokenCQuote]
     \<and> Type (identToken ''name'') = TokenIdent"
    by (simp add: name_value_attr_def quoted_def identToken_def)
  from a h2 b h3 c h4 show ?thesis by (simp add: tw)
qed

text \<open>
  Applied to the attribute \<^verbatim>\<open>name = "value" # comment\<close> itself, the function fails: the \<^verbatim>\<open>=\<close> is
  a token of the attribute (the second of \<open>BuildTokens\<close>) but not of its expression.
\<close>

theorem getAttributeValueAsString_parsed_attribute_counterexample:
  "name name_value_attr = ''name''
   \<and> Tokens_Bytes (expr name_value_attr) = '' '' @ [CHR 0x22] @ ''value'' @ [CHR 0x22]
   \<and> Type (BuildTokens name_value_attr ! 1) = TokenEqual
   \<and> getAttributeValueAsString name_value_attr = Inl (TokenEqualNotFound name_value_attr)
   \<and> getAttributeValueAsString name_value_attr \<noteq> Inr ([CHR 0x22] @ ''value'' @ [CHR 0x22])"
  by (simp add: pipeline_simps name_value_attr_def)

section \<open>Properties of the filter and the sink\<close>

text \<open>
  C10. The filter returns a new empty file when \<open>findAttribute\<close> finds no attribute, and
  otherwise a new file whose body is one attribute, named by the whole address and holding
  as its expression all the tokens of the attribute found; an error of \<open>findAttribute\<close> is
  passed on. The sink looks the attribute up under the whole address: it returns no bytes
  when there is none, and the raw value followed by a newline when there is one (the error
  of the value extractor when that fails). After a filter that found nothing the sink
  returns no bytes; after a filter that found an attribute the sink finds the attribute the
  filter stored.
\<close>

theorem filter_and_sink:
  "(findAttribute (file_Body inFile) (address f) = Inr (None, owner)
      \<longrightarrow> attributeGet_Filter f inFile = Inr NewEmptyFile)
   \<and> file_Body NewEmptyFile = []
   \<and> (findAttribute (file_Body inFile) (address f) = Inr (Some attr, owner)
      \<longrightarrow> attributeGet_Filter f inFile =
            Inr \<lparr>file_Body =
                  [AttributeItem \<lparr>leadComments = [], name = address f,
                                  expr = BuildTokens attr, lineComments = []\<rparr>]\<rparr>)
   \<and> (findAttribute (file_Body inFile) (address f) = Inl e
      \<longrightarrow> attributeGet_Filter f inFile = Inl e)
   \<and> (GetAttribute (file_Body outFile) (address f) = None
      \<longrightarrow> attributeGet_Sink f outFile = Inr [])
   \<and> (GetAttribute (file_Body outFile) (address f) = Some a
        \<and> getAttributeValueAsString a = Inr v
      \<longrightarrow> attributeGet_Sink f outFile = Inr (v @ [CHR 0x0A]))
   \<and> (GetAttribute (file_Body outFile) (address f) = Some a
        \<and> getAttributeValueAsString a = Inl e
      \<longrightarrow> attributeGet_Sink f outFile = Inl e)
   \<and> (findAttribute (file_Body inFile) (address f) = Inr (None, owner)
        \<and> attributeGet_Filter f inFile = Inr outFile
      \<longrightarrow> attributeGet_Sink f outFile = Inr [])
   \<and> (findAttribute (file_Body inFile) (address f) = Inr (Some attr, owner)
        \<and> attributeGet_Filter f inFile = Inr outFile
      \<longrightarrow> GetAttribute (file_Body outFile) (address f) =
            Some \<lparr>leadComments = [], name = address f, expr = BuildTokens attr,
                  lineComments = []\<rparr>)"
  by (auto simp add: attributeGet_Filter_def attributeGet_Sink_def NewEmptyFile_def
      SetAttributeRaw_def Let_def)

theorem filter_and_sink_witness:
  "findAttribute (file_Body \<lparr>file_Body = resource_doc\<rparr>)
       (address \<lparr>address = ''resource.aws_instance.foo.ami''\<rparr>) =
     Inr (Some (stringAttribute ''ami'' ''x''), Some (Body resource_block))
   \<and> attributeGet_Filter \<lparr>address = ''resource.aws_instance.foo.ami''\<rparr>
        \<lparr>file_Body = resource_doc\<rparr> =
       Inr \<lparr>file_Body =
             [AttributeItem \<lparr>leadComments = [], name = ''resource.aws_instance.foo.ami'',
                             expr = BuildTokens (stringAttribute ''ami'' ''x''),
                             lineComments = []\<rparr>]\<rparr>
   \<and> findAttribute (file_Body \<lparr>file_Body = resource_doc\<rparr>)
       (address \<lparr>address = ''resource.aws_instance.foo.id''\<rparr>) = Inr (None, None)
   \<and> attributeGet_Filter \<lparr>address = ''resource.aws_instance.foo.id''\<rparr>
        \<lparr>file_Body = resource_doc\<rparr> = Inr NewEmptyFile
   \<and> GetAttribute (file_Body NewEmptyFile)
        (address \<lparr>address = ''resource.aws_instance.foo.id''\<rparr>) = None
   \<and> attributeGet_Sink \<lparr>address = ''resource.aws_instance.foo.id''\<rparr> NewEmptyFile = Inr []"
proof -
  have h1: "findAttribute (file_Body \<lparr>file_Body = resource_doc\<rparr>)
       (address \<lparr>address = ''resource.aws_instance.foo.ami''\<rparr>) =
     Inr (Some (stringAttribute ''ami'' ''x''), Some (Body resource_block))"
    by (simp add: eval_simps resource_doc_def resource_block_def stringAttribute_def)
  have h2: "findAttribute (file_Body \<lparr>file_Body = resource_doc\<rparr>)
       (address \<lparr>address = ''resource.aws_instance.foo.id''\<rparr>) = Inr (None, None)"
    by (simp add: eval_simps resource_doc_def resource_block_def stringAttribute_def)
  have h3: "GetAttribute (file_Body NewEmptyFile)
        (address \<lparr>address = ''resource.aws_instance.foo.id''\<rparr>) = None"
    by (simp add: NewEmptyFile_def)
  note a = filter_and_sink [of "\<lparr>file_Body = resource_doc\<rparr>"
      "\<lparr>address = ''resource.aws_instance.foo.ami''\<rparr>" _ "stringAttribute ''ami'' ''x''",
      THEN conjunct2, THEN conjunct2, THEN conjunct1, THEN mp, OF h1]
  note b = filter_and_sink [of "\<lparr>file_Body = resource_doc\<rparr>"
      "\<lparr>address = ''resource.aws_instance.foo.id''\<rparr>", THEN conjunct1, THEN mp, OF h2]
  note c = filter_and_sink [of _ "\<lparr>address = ''resource.aws_instance.foo.id''\<rparr>" _ _ _
      NewEmptyFile,
      THEN conjunct2, THEN conjunct2, THEN conjunct2, THEN conjunct2, THEN conjunct1,
      THEN mp, OF h3]
  from h1 a h2 b h3 c show ?thesis by simp
qed

end
